theory Spec2Isabelle
  imports Main "HOL-Library.Word" "HOL-Library.Multiset"
begin

unbundle bit_operations_syntax

section \<open>Alignment macros\<close>

text \<open>
  PostgreSQL's \<^verbatim>\<open>TYPEALIGN(ALIGNVAL, LEN)\<close> is
  \<^verbatim>\<open>(((uintptr_t) (LEN) + ((ALIGNVAL) - 1)) & ~((uintptr_t) ((ALIGNVAL) - 1)))\<close>.
  It is written here on \<open>int\<close> with the same bit operations; the operands of every
  use below are non-negative and far below the width of \<open>uintptr_t\<close>.
  \<^verbatim>\<open>MAXALIGN\<close> and \<^verbatim>\<open>LONGALIGN\<close> align to 8 bytes on the 64-bit
  platforms the code is built for; \<^verbatim>\<open>STROMALIGN\<close> aligns to
  \<^verbatim>\<open>STROMALIGN_LEN\<close>, which the project's common header sets to 16.
\<close>

definition TYPEALIGN :: "int \<Rightarrow> int \<Rightarrow> int" where
  "TYPEALIGN alignval len = (len + (alignval - 1)) AND NOT (alignval - 1)"

definition MAXALIGN :: "int \<Rightarrow> int" where
  "MAXALIGN len = TYPEALIGN 8 len"

definition LONGALIGN :: "nat \<Rightarrow> nat" where
  "LONGALIGN len = nat (TYPEALIGN 8 (int len))"

definition STROMALIGN_LEN :: nat where
  "STROMALIGN_LEN = 16"

definition STROMALIGN :: "nat \<Rightarrow> nat" where
  "STROMALIGN len = nat (TYPEALIGN (int STROMALIGN_LEN) (int len))"

text \<open>Rounding up to a multiple, as the specification words it.\<close>

definition round_up :: "int \<Rightarrow> int \<Rightarrow> int" where
  "round_up a x = ((x + a - 1) div a) * a"

section \<open>Column metadata of a chunk: \<^verbatim>\<open>init_kern_data_store\<close>\<close>

text \<open>
  \<^verbatim>\<open>Form_pg_attribute\<close> is PostgreSQL's column descriptor; only the fields the
  function reads are kept, together with \<open>pg_attnotnull\<close>, which it never reads.
  The catalog restricts \<^verbatim>\<open>attalign\<close> to the four codes
  \<^verbatim>\<open>'c'\<close>, \<^verbatim>\<open>'s'\<close>, \<^verbatim>\<open>'i'\<close>, \<^verbatim>\<open>'d'\<close>;
  \<^verbatim>\<open>typealign_get_width\<close> (declared in a project header) maps them to the widths
  1, 2, 4 and 8.  In the catalog \<^verbatim>\<open>attlen\<close> and \<^verbatim>\<open>attnum\<close> are
  \<^verbatim>\<open>int16\<close>.
\<close>

datatype typalign = TYPALIGN_CHAR | TYPALIGN_SHORT | TYPALIGN_INT | TYPALIGN_DOUBLE

fun typealign_get_width :: "typalign \<Rightarrow> int" where
  "typealign_get_width TYPALIGN_CHAR = 1"
| "typealign_get_width TYPALIGN_SHORT = 2"
| "typealign_get_width TYPALIGN_INT = 4"
| "typealign_get_width TYPALIGN_DOUBLE = 8"

record Form_pg_attribute =
  pg_atttypid :: "32 word"
  pg_attlen :: "16 word"
  pg_attnum :: "16 word"
  pg_attbyval :: bool
  pg_attalign :: typalign
  pg_attnotnull :: bool

record TupleDesc =
  attrs :: "Form_pg_attribute list"
  tdtypeid_of :: "32 word"
  tdtypmod_of :: int
  tdhasoid_of :: bool

definition natts :: "TupleDesc \<Rightarrow> nat" where
  "natts tupdesc = length (attrs tupdesc)"

definition NUMERICOID :: "32 word" where
  "NUMERICOID = 1700"

text \<open>
  \<^verbatim>\<open>kern_colmeta\<close> is declared in the project's common device header as
  \<^verbatim>\<open>cl_char attbyval; cl_char attalign; cl_short attlen; cl_short attnum;
  cl_short attcacheoff;\<close>, eight bytes in all.  The fields carry these widths here;
  \<open>sint\<close> reads a field as the signed number it holds.
\<close>

record kern_colmeta =
  attbyval :: bool
  attalign :: "8 word"
  attlen :: "16 word"
  attnum :: "16 word"
  attcacheoff :: "16 word"

datatype kds_format = KDS_FORMAT_ROW | KDS_FORMAT_SLOT | KDS_FORMAT_OTHER int

record kern_data_store =
  hostptr :: "64 word"
  length_kds :: "32 word"
  usage :: "32 word"
  ncols :: "32 word"
  nitems :: "32 word"
  nrooms :: "32 word"
  format :: kds_format
  tdhasoid :: bool
  tdtypeid :: "32 word"
  tdtypmod :: int
  colmeta :: "kern_colmeta list"
  mem :: "8 word list"

text \<open>
  \<^verbatim>\<open>offsetof(HeapTupleHeaderData, t_bits)\<close> is 23 and \<^verbatim>\<open>sizeof(Oid)\<close> is 4
  in PostgreSQL.
\<close>

definition offsetof_t_bits :: int where
  "offsetof_t_bits = 23"

definition sizeof_Oid :: int where
  "sizeof_Oid = 4"

text \<open>
  The body of the \<^verbatim>\<open>for\<close> loop of \<^verbatim>\<open>init_kern_data_store\<close>, one column
  at a time; the first argument is the running \<^verbatim>\<open>attcacheoff\<close>.  The locals
  \<^verbatim>\<open>attalign\<close>, \<^verbatim>\<open>attlen\<close> and \<^verbatim>\<open>attnum\<close> are of type
  \<^verbatim>\<open>int\<close> and hold an alignment width or an \<^verbatim>\<open>int16\<close> as it is, so
  they are integers here.  The running \<^verbatim>\<open>attcacheoff\<close> is an \<^verbatim>\<open>int\<close>
  that the loop adds to, so it is a 32-bit word read as signed; the assignment from
  \<^verbatim>\<open>TYPEALIGN\<close> keeps the low 32 bits and the addition wraps.  Each store
  into a field of \<^verbatim>\<open>kds->colmeta[i]\<close> converts the \<^verbatim>\<open>int\<close> to the
  width of the field, which keeps its low bits.
\<close>

fun init_colmeta :: "bool \<Rightarrow> 32 word \<Rightarrow> Form_pg_attribute list \<Rightarrow> kern_colmeta list" where
  "init_colmeta internal_format off [] = []"
| "init_colmeta internal_format off (attr # rest) =
     (let fixup = (internal_format \<and> pg_atttypid attr = NUMERICOID);
          byval = (if fixup then True else pg_attbyval attr);
          align = (if fixup then 8 else typealign_get_width (pg_attalign attr));
          len = (if fixup then 8 else sint (pg_attlen attr));
          num = sint (pg_attnum attr);
          off1 = (if sint off > 0
                  then (if len > 0 then word_of_int (TYPEALIGN align (sint off)) else - 1)
                  else off);
          cmeta = \<lparr>attbyval = byval, attalign = word_of_int align, attlen = word_of_int len,
                    attnum = word_of_int num, attcacheoff = scast off1\<rparr>;
          off2 = (if sint off1 \<ge> 0 then off1 + word_of_int len else off1)
      in cmeta # init_colmeta internal_format off2 rest)"

definition initial_attcacheoff :: "TupleDesc \<Rightarrow> int" where
  "initial_attcacheoff tupdesc =
     MAXALIGN (if tdhasoid_of tupdesc then offsetof_t_bits + sizeof_Oid else offsetof_t_bits)"

definition init_kern_data_store ::
  "kern_data_store \<Rightarrow> 64 word \<Rightarrow> TupleDesc \<Rightarrow> nat \<Rightarrow> kds_format \<Rightarrow> nat \<Rightarrow> bool \<Rightarrow> kern_data_store" where
  "init_kern_data_store kds kds_addr tupdesc len fmt rooms internal_format =
     kds\<lparr>hostptr := kds_addr,
         length_kds := of_nat len,
         usage := 0,
         ncols := of_nat (natts tupdesc),
         nitems := 0,
         nrooms := of_nat rooms,
         format := fmt,
         tdhasoid := tdhasoid_of tupdesc,
         tdtypeid := tdtypeid_of tupdesc,
         tdtypmod := tdtypmod_of tupdesc,
         colmeta := init_colmeta internal_format (word_of_int (initial_attcacheoff tupdesc))
                      (attrs tupdesc)\<rparr>"

text \<open>The cached offsets a chunk records, each read as the signed number the field holds.\<close>

definition cached_offsets :: "kern_data_store \<Rightarrow> int list" where
  "cached_offsets kds = map (\<lambda>cmeta. sint (attcacheoff cmeta)) (colmeta kds)"

text \<open>
  The cached offsets as the specification words them: a running offset that is either
  known or unknown; a fixed-width column gets the running offset rounded up to its
  alignment and advances it by its length; the first variable-width column makes the
  offset unknown for itself and every later column.  Width and alignment are the ones
  recorded in the column metadata, that is, after the device-internal override.  The
  offsets are plain integers.
\<close>

fun spec_cacheoffs :: "bool \<Rightarrow> int option \<Rightarrow> Form_pg_attribute list \<Rightarrow> int list" where
  "spec_cacheoffs internal_format known [] = []"
| "spec_cacheoffs internal_format None (attr # rest) =
     (- 1) # spec_cacheoffs internal_format None rest"
| "spec_cacheoffs internal_format (Some off) (attr # rest) =
     (let fixup = (internal_format \<and> pg_atttypid attr = NUMERICOID);
          width = (if fixup then 8 else sint (pg_attlen attr));
          align = (if fixup then 8 else typealign_get_width (pg_attalign attr))
      in if width > 0
         then round_up align off # spec_cacheoffs internal_format (Some (round_up align off + width)) rest
         else (- 1) # spec_cacheoffs internal_format None rest)"

definition spec_initial_offset :: "TupleDesc \<Rightarrow> int" where
  "spec_initial_offset tupdesc =
     round_up 8 (if tdhasoid_of tupdesc then 23 + 4 else 23)"

text \<open>
  The same, with the rule of the claim as it is written: a nullable column also makes
  the offset unknown.
\<close>

fun claimed_cacheoffs :: "bool \<Rightarrow> int option \<Rightarrow> Form_pg_attribute list \<Rightarrow> int list" where
  "claimed_cacheoffs internal_format known [] = []"
| "claimed_cacheoffs internal_format None (attr # rest) =
     (- 1) # claimed_cacheoffs internal_format None rest"
| "claimed_cacheoffs internal_format (Some off) (attr # rest) =
     (let fixup = (internal_format \<and> pg_atttypid attr = NUMERICOID);
          width = (if fixup then 8 else sint (pg_attlen attr));
          align = (if fixup then 8 else typealign_get_width (pg_attalign attr))
      in if width > 0 \<and> pg_attnotnull attr
         then round_up align off # claimed_cacheoffs internal_format (Some (round_up align off + width)) rest
         else (- 1) # claimed_cacheoffs internal_format None rest)"

text \<open>
  A concrete descriptor used below: one \<^verbatim>\<open>int4\<close> column (type 23, four bytes,
  by value, \<^verbatim>\<open>'i'\<close> alignment) that is nullable, in a row type without OIDs.
\<close>

definition nullable_int4 :: Form_pg_attribute where
  "nullable_int4 =
     \<lparr>pg_atttypid = 23, pg_attlen = 4, pg_attnum = 1, pg_attbyval = True,
      pg_attalign = TYPALIGN_INT, pg_attnotnull = False\<rparr>"

definition one_nullable_column :: TupleDesc where
  "one_nullable_column =
     \<lparr>attrs = [nullable_int4], tdtypeid_of = 0, tdtypmod_of = - 1, tdhasoid_of = False\<rparr>"

text \<open>
  A row type of two columns without OIDs: a fixed-length type of 32767 bytes with
  \<^verbatim>\<open>'c'\<close> alignment (the largest length the catalog's \<^verbatim>\<open>int16\<close> holds),
  then a one-byte \<^verbatim>\<open>"char"\<close> (type 18).
\<close>

definition wide_then_char :: TupleDesc where
  "wide_then_char =
     \<lparr>attrs = [\<lparr>pg_atttypid = 16385, pg_attlen = 32767, pg_attnum = 1, pg_attbyval = False,
                 pg_attalign = TYPALIGN_CHAR, pg_attnotnull = True\<rparr>,
                \<lparr>pg_atttypid = 18, pg_attlen = 1, pg_attnum = 2, pg_attbyval = True,
                 pg_attalign = TYPALIGN_CHAR, pg_attnotnull = True\<rparr>],
      tdtypeid_of = 0, tdtypmod_of = - 1, tdhasoid_of = False\<rparr>"

text \<open>
  A row type of four columns without OIDs: a nullable \<^verbatim>\<open>int4\<close>, an
  \<^verbatim>\<open>int8\<close> (type 20, eight bytes, \<^verbatim>\<open>'d'\<close> alignment), a
  \<^verbatim>\<open>text\<close> (type 25, variable width) and another \<^verbatim>\<open>int4\<close>.
\<close>

definition mixed_columns :: TupleDesc where
  "mixed_columns =
     \<lparr>attrs = [nullable_int4,
                \<lparr>pg_atttypid = 20, pg_attlen = 8, pg_attnum = 2, pg_attbyval = True,
                 pg_attalign = TYPALIGN_DOUBLE, pg_attnotnull = True\<rparr>,
                \<lparr>pg_atttypid = 25, pg_attlen = - 1, pg_attnum = 3, pg_attbyval = False,
                 pg_attalign = TYPALIGN_INT, pg_attnotnull = True\<rparr>,
                \<lparr>pg_atttypid = 23, pg_attlen = 4, pg_attnum = 4, pg_attbyval = True,
                 pg_attalign = TYPALIGN_INT, pg_attnotnull = True\<rparr>],
      tdtypeid_of = 0, tdtypmod_of = - 1, tdhasoid_of = False\<rparr>"

definition blank_chunk :: kern_data_store where
  "blank_chunk =
     \<lparr>hostptr = 0, length_kds = 0, usage = 0, ncols = 0, nitems = 0, nrooms = 0,
      format = KDS_FORMAT_ROW, tdhasoid = False, tdtypeid = 0, tdtypmod = 0,
      colmeta = [], mem = []\<rparr>"

section \<open>Chunk memory\<close>

text \<open>
  A chunk is one contiguous byte range; every reference inside it is an offset from
  its start.  The fixed header and the column metadata are kept as the fields of
  \<open>kern_data_store\<close>; \<open>mem\<close> is the whole range, addressed by chunk-relative
  offset, and holds the index array and the item payloads.  Integers are stored
  little-endian, as on the hosts and devices the code runs on.
\<close>

type_synonym byte = "8 word"

fun le_bytes :: "nat \<Rightarrow> nat \<Rightarrow> byte list" where
  "le_bytes 0 x = []"
| "le_bytes (Suc n) x = of_nat (x mod 256) # le_bytes n (x div 256)"

fun le_nat :: "byte list \<Rightarrow> nat" where
  "le_nat [] = 0"
| "le_nat (b # bs) = unat b + 256 * le_nat bs"

definition write_bytes :: "byte list \<Rightarrow> nat \<Rightarrow> byte list \<Rightarrow> byte list" where
  "write_bytes m off bs = take off m @ bs @ drop (off + length bs) m"

definition read_bytes :: "byte list \<Rightarrow> nat \<Rightarrow> nat \<Rightarrow> byte list" where
  "read_bytes m off n = take n (drop off m)"

definition write_u32 :: "byte list \<Rightarrow> nat \<Rightarrow> 32 word \<Rightarrow> byte list" where
  "write_u32 m off w = write_bytes m off (le_bytes 4 (unat w))"

definition read_u32 :: "byte list \<Rightarrow> nat \<Rightarrow> 32 word" where
  "read_u32 m off = of_nat (le_nat (read_bytes m off 4))"

text \<open>
  Everything that ends a function other than by returning: a failed \<^verbatim>\<open>Assert\<close>,
  an \<^verbatim>\<open>elog(ERROR)\<close> or \<^verbatim>\<open>ereport(ERROR)\<close>, and a store that leaves
  the chunk's byte range, which C leaves undefined.
\<close>

datatype error =
    Assertion_failed
  | Unexpected_format
  | Memory_fault
  | Serialization_failure
  | Datatype_mismatch
  | Cache_lookup_failed
  | Unexpected_node
  | File_access_error

definition store_bytes :: "byte list \<Rightarrow> nat \<Rightarrow> byte list \<Rightarrow> error + byte list" where
  "store_bytes m off bs =
     (if off + length bs \<le> length m then Inr (write_bytes m off bs) else Inl Memory_fault)"

section \<open>Row-format chunks: insertion and fetch\<close>

text \<open>
  \<^verbatim>\<open>kern_tupitem\<close> is declared in a project header as
  \<^verbatim>\<open>{ cl_uint t_len; ItemPointerData t_self; HeapTupleHeaderData htup; }\<close>:
  the row length at offset 0, the six bytes of the row identity at offset 4, and the
  encoded row at \<^verbatim>\<open>offsetof(kern_tupitem, htup)\<close>, which is 12.
  \<^verbatim>\<open>offsetof(kern_data_store, colmeta[n])\<close> is taken as \<open>40 + 8 * n\<close>; no result
  below depends on these two numbers.
\<close>

definition offsetof_htup :: nat where
  "offsetof_htup = 12"

definition sizeof_ItemPointerData :: nat where
  "sizeof_ItemPointerData = 6"

definition offsetof_colmeta :: "nat \<Rightarrow> nat" where
  "offsetof_colmeta n = 40 + 8 * n"

definition sizeof_uint :: nat where
  "sizeof_uint = 4"

text \<open>
  \<^verbatim>\<open>KERN_DATA_STORE_BODY(kds)\<close>, as an offset: the index array starts right behind
  the aligned header, \<^verbatim>\<open>STROMALIGN(offsetof(kern_data_store, colmeta[kds->ncols]))\<close>.
\<close>

definition KERN_DATA_STORE_BODY :: "kern_data_store \<Rightarrow> nat" where
  "KERN_DATA_STORE_BODY kds = STROMALIGN (offsetof_colmeta (unat (ncols kds)))"

record HeapTupleData =
  t_len :: "32 word"
  t_self :: "byte list"
  t_data :: "byte list"

record TupleTableSlot =
  tts_natts :: nat
  tts_tuple :: HeapTupleData

text \<open>
  The three stores of one item at offset \<open>tup_item\<close>: \<^verbatim>\<open>t_len\<close>,
  \<^verbatim>\<open>t_self\<close>, and \<^verbatim>\<open>memcpy(&tup_item->htup, t_data, t_len)\<close>.
\<close>

definition put_tupitem :: "byte list \<Rightarrow> nat \<Rightarrow> HeapTupleData \<Rightarrow> error + byte list" where
  "put_tupitem m tup_item tuple =
     (case store_bytes m tup_item (le_bytes 4 (unat (t_len tuple))) of
        Inl e \<Rightarrow> Inl e
      | Inr m1 \<Rightarrow>
          (case store_bytes m1 (tup_item + 4) (t_self tuple) of
             Inl e \<Rightarrow> Inl e
           | Inr m2 \<Rightarrow>
               store_bytes m2 (tup_item + offsetof_htup)
                 (take (unat (t_len tuple)) (t_data tuple))))"

text \<open>
  \<^verbatim>\<open>pgstrom_data_store_insert_tuple\<close>, on the chunk \<^verbatim>\<open>pds->kds\<close>.  The result
  is the returned flag and the chunk afterwards.  \<open>consume\<close> is computed in
  \<^verbatim>\<open>Size\<close> (64 bits) from 32-bit fields, so it cannot wrap; the new \<open>usage\<close>
  and the index entry are stored in 32 bits.
\<close>

definition tuple_consume :: "kern_data_store \<Rightarrow> HeapTupleData \<Rightarrow> nat" where
  "tuple_consume kds tuple =
     KERN_DATA_STORE_BODY kds + sizeof_uint * (unat (nitems kds) + 1)
     + unat (usage kds)
     + LONGALIGN (offsetof_htup + unat (t_len tuple))"

definition pgstrom_data_store_insert_tuple ::
  "kern_data_store \<Rightarrow> TupleTableSlot \<Rightarrow> error + (bool \<times> kern_data_store)" where
  "pgstrom_data_store_insert_tuple kds slot =
     (if nitems kds \<ge> nrooms kds then Inr (False, kds)
      else if unat (ncols kds) \<noteq> tts_natts slot then Inl Assertion_failed
      else if format kds \<noteq> KDS_FORMAT_ROW then Inl Unexpected_format
      else
        let tup_index = KERN_DATA_STORE_BODY kds;
            tuple = tts_tuple slot
        in if tuple_consume kds tuple > unat (length_kds kds) then Inr (False, kds)
           else
             let usage' = (of_nat (unat (usage kds)
                              + LONGALIGN (offsetof_htup + unat (t_len tuple))) :: 32 word);
                 tup_item = unat (length_kds kds) - unat usage'
             in case put_tupitem (mem kds) tup_item tuple of
                  Inl e \<Rightarrow> Inl e
                | Inr m1 \<Rightarrow>
                    (case store_bytes m1 (tup_index + sizeof_uint * unat (nitems kds))
                            (le_bytes 4 (unat (of_nat tup_item :: 32 word))) of
                       Inl e \<Rightarrow> Inl e
                     | Inr m2 \<Rightarrow>
                         Inr (True, kds\<lparr>usage := usage', nitems := nitems kds + 1, mem := m2\<rparr>)))"

text \<open>
  \<^verbatim>\<open>KERN_DATA_STORE_TUPITEM(kds, i)\<close>: the item whose offset is the \<open>i\<close>-th entry
  of the index array.
\<close>

definition KERN_DATA_STORE_TUPITEM :: "kern_data_store \<Rightarrow> nat \<Rightarrow> nat" where
  "KERN_DATA_STORE_TUPITEM kds i =
     unat (read_u32 (mem kds) (KERN_DATA_STORE_BODY kds + sizeof_uint * i))"

text \<open>
  What \<^verbatim>\<open>kern_fetch_data_store\<close> leaves in the slot: for the row format a row handle
  (its length, its identity, and \<^verbatim>\<open>t_data\<close> pointing at the stored bytes, read here
  as the \<^verbatim>\<open>t_len\<close> bytes it points at); for the slot format a virtual row that points
  at the value and null arrays of the item.  \<open>None\<close> is the return value
  \<^verbatim>\<open>false\<close>.
\<close>

datatype fetched = Row_tuple HeapTupleData | Virtual_tuple nat

definition kern_fetch_data_store :: "kern_data_store \<Rightarrow> nat \<Rightarrow> error + fetched option" where
  "kern_fetch_data_store kds row_index =
     (if row_index \<ge> unat (nitems kds) then Inr None
      else if format kds = KDS_FORMAT_ROW then
        let tup_item = KERN_DATA_STORE_TUPITEM kds row_index;
            len = read_u32 (mem kds) tup_item
        in Inr (Some (Row_tuple
              \<lparr>t_len = len,
               t_self = read_bytes (mem kds) (tup_item + 4) sizeof_ItemPointerData,
               t_data = read_bytes (mem kds) (tup_item + offsetof_htup) (unat len)\<rparr>))
      else if format kds = KDS_FORMAT_SLOT then Inr (Some (Virtual_tuple row_index))
      else Inl Unexpected_format)"

section \<open>Loading a page: \<^verbatim>\<open>pgstrom_data_store_insert_block\<close>\<close>

text \<open>
  What the function reads of the page after \<^verbatim>\<open>ReadBuffer\<close>: the line pointers in
  offset order, each with the flag \<^verbatim>\<open>ItemIdIsNormal\<close>, the item length, the item
  bytes, the answer of \<^verbatim>\<open>HeapTupleSatisfiesVisibility\<close> for the snapshot at hand,
  and whether \<^verbatim>\<open>CheckForSerializableConflictOut\<close> raises a serialization failure
  for it.  Calls into the buffer manager (read, prune, lock, unlock) return and do not
  touch the chunk.
\<close>

record page_line =
  lp_normal :: bool
  lp_len :: "32 word"
  lp_data :: "byte list"
  lp_visible :: bool
  lp_conflict :: bool

record Page =
  page_lines :: "page_line list"
  pd_all_visible :: bool

record Snapshot =
  takenDuringRecovery :: bool

definition BLCKSZ :: nat where
  "BLCKSZ = 8192"

definition MaxHeapTuplesPerPage :: nat where
  "MaxHeapTuplesPerPage = 291"

text \<open>\<^verbatim>\<open>ItemPointerSet(&tup.t_self, blknum, lineoff)\<close>, as the six bytes of the struct.\<close>

definition ItemPointerSet :: "32 word \<Rightarrow> nat \<Rightarrow> byte list" where
  "ItemPointerSet blknum lineoff =
     le_bytes 2 (unat blknum div 65536) @ le_bytes 2 (unat blknum mod 65536) @ le_bytes 2 lineoff"

text \<open>
  The worst-case estimate of the pre-check.  \<^verbatim>\<open>kds->nitems + lines\<close> is an
  \<^verbatim>\<open>unsigned int\<close> sum; the rest is computed in \<^verbatim>\<open>Size\<close>.
\<close>

definition max_consume :: "kern_data_store \<Rightarrow> nat \<Rightarrow> nat" where
  "max_consume kds lines =
     STROMALIGN (offsetof_colmeta (unat (ncols kds)))
     + sizeof_uint * unat (nitems kds + of_nat lines)
     + offsetof_htup * lines + BLCKSZ
     + unat (usage kds)"

text \<open>
  The scan of the line pointers.  The state is \<^verbatim>\<open>kds->usage\<close>, the chunk memory and
  \<^verbatim>\<open>ntup\<close>; \<open>lineoff\<close> counts from \<^verbatim>\<open>FirstOffsetNumber\<close>.  A tuple
  reserves \<^verbatim>\<open>LONGALIGN(tup.t_len)\<close> bytes at the tail, then its index entry, length,
  identity and bytes are stored.
\<close>

fun insert_block_scan ::
  "kern_data_store \<Rightarrow> 32 word \<Rightarrow> bool \<Rightarrow> nat \<Rightarrow> page_line list
   \<Rightarrow> 32 word \<times> byte list \<times> nat \<Rightarrow> error + (32 word \<times> byte list \<times> nat)" where
  "insert_block_scan kds blknum all_visible lineoff [] st = Inr st"
| "insert_block_scan kds blknum all_visible lineoff (lpp # rest) (usg, m, ntup) =
     (if \<not> lp_normal lpp
      then insert_block_scan kds blknum all_visible (lineoff + 1) rest (usg, m, ntup)
      else
        let valid = (if all_visible then True else lp_visible lpp)
        in if lp_conflict lpp then Inl Serialization_failure
           else if \<not> valid
           then insert_block_scan kds blknum all_visible (lineoff + 1) rest (usg, m, ntup)
           else
             let usg' = (of_nat (unat usg + LONGALIGN (unat (lp_len lpp))) :: 32 word)
             in if unat usg' > unat (length_kds kds) then Inl Memory_fault
                else
                  let tup_item = unat (length_kds kds) - unat usg';
                      tup = \<lparr>t_len = lp_len lpp, t_self = ItemPointerSet blknum lineoff,
                             t_data = lp_data lpp\<rparr>
                  in case store_bytes m
                            (KERN_DATA_STORE_BODY kds + sizeof_uint * (unat (nitems kds) + ntup))
                            (le_bytes 4 (unat (of_nat tup_item :: 32 word))) of
                       Inl e \<Rightarrow> Inl e
                     | Inr m1 \<Rightarrow>
                         (case put_tupitem m1 tup_item tup of
                            Inl e \<Rightarrow> Inl e
                          | Inr m2 \<Rightarrow>
                              insert_block_scan kds blknum all_visible (lineoff + 1) rest
                                (usg', m2, ntup + 1)))"

text \<open>
  The result is the returned count (\<open>-1\<close> asks the caller to retry with a fresh chunk)
  and the chunk afterwards.
\<close>

definition pgstrom_data_store_insert_block ::
  "kern_data_store \<Rightarrow> Page \<Rightarrow> 32 word \<Rightarrow> Snapshot \<Rightarrow> error + (int \<times> kern_data_store)" where
  "pgstrom_data_store_insert_block kds page blknum snapshot =
     (if format kds \<noteq> KDS_FORMAT_ROW then Inl Assertion_failed
      else
        let lines = length (page_lines page)
        in if max_consume kds lines > unat (length_kds kds) then Inr (- 1, kds)
           else
             let all_visible = (pd_all_visible page \<and> \<not> takenDuringRecovery snapshot)
             in case insert_block_scan kds blknum all_visible 1 (page_lines page)
                       (usage kds, mem kds, 0) of
                  Inl e \<Rightarrow> Inl e
                | Inr (usg, m, ntup) \<Rightarrow>
                    if \<not> ntup \<le> MaxHeapTuplesPerPage then Inl Assertion_failed
                    else if \<not> nitems kds + of_nat ntup \<le> nrooms kds then Inl Assertion_failed
                    else Inr (int ntup,
                              kds\<lparr>usage := usg, mem := m, nitems := nitems kds + of_nat ntup\<rparr>))"

section \<open>Creating a row-format chunk: \<^verbatim>\<open>pgstrom_create_data_store_row\<close>\<close>

text \<open>
  The calls the function makes on the file system, in order, with their arguments.
  Flags are kept by name.
\<close>

datatype fs_call =
    OpenTransientFile string "string list" nat
  | Ftruncate int nat
  | Mmap nat "string list" "string list" int nat
  | CloseTransientFile int

text \<open>
  What the function takes from its surroundings: the name
  \<^verbatim>\<open>get_pgstrom_temp_filename()\<close> returns, the results of the three calls that can
  fail, the address and the bytes of the fresh allocation or mapping, and the value
  the local variable \<^verbatim>\<open>kds_length\<close> happens to hold: it is declared and read, and
  no statement of the function assigns it.
\<close>

record fs_env =
  temp_filename :: string
  open_result :: int
  ftruncate_result :: int
  mmap_failed :: bool
  fresh_address :: "64 word"
  fresh_byte :: "nat \<Rightarrow> byte"
  kds_length_local :: nat

record pgstrom_data_store =
  kds_fname :: "string option"
  kds_offset :: nat
  kds_length :: nat
  pds_kds :: kern_data_store

definition INT_MAX :: nat where
  "INT_MAX = 2147483647"

definition raw_chunk :: "fs_env \<Rightarrow> nat \<Rightarrow> kern_data_store" where
  "raw_chunk env n =
     \<lparr>hostptr = 0, length_kds = 0, usage = 0, ncols = 0, nitems = 0, nrooms = 0,
      format = KDS_FORMAT_OTHER 0, tdhasoid = False, tdtypeid = 0, tdtypmod = 0,
      colmeta = [], mem = map (fresh_byte env) [0..<n]\<rparr>"

definition pgstrom_create_data_store_row ::
  "fs_env \<Rightarrow> TupleDesc \<Rightarrow> nat \<Rightarrow> bool \<Rightarrow> error + (pgstrom_data_store \<times> fs_call list)" where
  "pgstrom_create_data_store_row env tupdesc len file_mapped =
     (let fname = (if file_mapped then Some (temp_filename env) else None);
          pds_kds_length = STROMALIGN (offsetof_colmeta (natts tupdesc)) + STROMALIGN len
      in case fname of
           None \<Rightarrow>
             Inr (\<lparr>kds_fname = None, kds_offset = 0, kds_length = pds_kds_length,
                   pds_kds = init_kern_data_store (raw_chunk env pds_kds_length) (fresh_address env)
                           tupdesc pds_kds_length KDS_FORMAT_ROW INT_MAX False\<rparr>,
                  [])
         | Some name \<Rightarrow>
             let kds_fdesc = open_result env;
                 c1 = OpenTransientFile name [''O_RDWR'', ''O_CREAT'', ''O_TRUNC'', ''PG_BINARY''] 384
             in if kds_fdesc < 0 then Inl File_access_error
                else
                  let c2 = Ftruncate kds_fdesc pds_kds_length
                  in if ftruncate_result env \<noteq> 0 then Inl File_access_error
                     else
                       let c3 = Mmap (kds_length_local env) [''PROT_READ'', ''PROT_WRITE'']
                                  [''MAP_SHARED'', ''MAP_POPULATE''] kds_fdesc 0
                       in if mmap_failed env then Inl File_access_error
                          else
                            Inr (\<lparr>kds_fname = Some name, kds_offset = 0,
                                  kds_length = pds_kds_length,
                                  pds_kds = init_kern_data_store
                                          (raw_chunk env (kds_length_local env))
                                          (fresh_address env)
                                          tupdesc pds_kds_length KDS_FORMAT_ROW INT_MAX False\<rparr>,
                                 [c1, c2, c3, CloseTransientFile kds_fdesc]))"

section \<open>Concrete inputs\<close>

text \<open>
  A row-format chunk of 256 bytes for a row type of one column, freshly initialised;
  a slot holding a row of 28 bytes (a 24-byte header and the \<^verbatim>\<open>int4\<close> 42) with
  identity (block 7, line 1); a page with that row as its only line; and an
  environment in which every file-system call succeeds and the unassigned local
  \<^verbatim>\<open>kds_length\<close> holds 4096.
\<close>

definition example_row_chunk :: kern_data_store where
  "example_row_chunk =
     init_kern_data_store (blank_chunk\<lparr>mem := replicate 256 0\<rparr>) 0 one_nullable_column
       256 KDS_FORMAT_ROW INT_MAX False"

definition example_tuple :: HeapTupleData where
  "example_tuple =
     \<lparr>t_len = 28, t_self = ItemPointerSet 7 1, t_data = replicate 24 0 @ [42, 0, 0, 0]\<rparr>"

definition example_slot :: TupleTableSlot where
  "example_slot = \<lparr>tts_natts = 1, tts_tuple = example_tuple\<rparr>"

definition example_page :: Page where
  "example_page =
     \<lparr>page_lines = [\<lparr>lp_normal = True, lp_len = 28, lp_data = replicate 24 0 @ [42, 0, 0, 0],
                      lp_visible = True, lp_conflict = False\<rparr>],
      pd_all_visible = False\<rparr>"

definition example_snapshot :: Snapshot where
  "example_snapshot = \<lparr>takenDuringRecovery = False\<rparr>"

definition example_fs_env :: fs_env where
  "example_fs_env =
     \<lparr>temp_filename = ''pgsql_tmp/strom.1'', open_result = 3, ftruncate_result = 0,
      mmap_failed = False, fresh_address = 0, fresh_byte = (\<lambda>a. 0),
      kds_length_local = 4096\<rparr>"

text \<open>The chunk after the row has been inserted: the index entry 216 and the item at 216.\<close>

definition example_chunk_after :: kern_data_store where
  "example_chunk_after =
     example_row_chunk
       \<lparr>usage := 40, nitems := 1,
        mem := replicate 48 0 @ le_bytes 4 216 @ replicate 164 0
               @ le_bytes 4 28 @ ItemPointerSet 7 1 @ replicate 2 0
               @ replicate 24 0 @ [42, 0, 0, 0]\<rparr>"

section \<open>The parameter buffer: \<^verbatim>\<open>pgstrom_create_kern_parambuf\<close>\<close>

text \<open>
  The expression nodes the function tells apart: a constant, a bound parameter, and
  anything else.  A \<^verbatim>\<open>Datum\<close> is a 64-bit word; for a by-reference type it is a
  pointer.
\<close>

record Const_node =
  constisnull :: bool
  constlen :: int
  constvalue :: "64 word"

record Param_node =
  paramid :: int
  paramtype :: "32 word"

datatype Node = Const Const_node | Param Param_node | Other_node

record ParamExternData =
  prm_value :: "64 word"
  prm_isnull :: bool
  prm_ptype :: "32 word"

text \<open>
  \<^verbatim>\<open>ParamListInfo\<close>: the array \<^verbatim>\<open>params\<close> has \<^verbatim>\<open>numParams\<close> entries.
  The hook \<^verbatim>\<open>paramFetch\<close> is called for one parameter id and fills in the entry of
  that parameter.
\<close>

record ParamListInfoData =
  paramFetch :: "(int \<Rightarrow> ParamExternData \<Rightarrow> ParamExternData) option"
  params :: "ParamExternData list"

definition numParams :: "ParamListInfoData \<Rightarrow> int" where
  "numParams param_info = int (length (params param_info))"

record ExprContext =
  ecxt_param_list_info :: "ParamListInfoData option"

text \<open>
  What the function reads of the host beyond its arguments: the bytes a pointer
  \<^verbatim>\<open>Datum\<close> points at, the bytes that follow a \<^verbatim>\<open>Datum\<close> object in memory
  (copied when a by-value length exceeds \<^verbatim>\<open>sizeof(Datum)\<close>), the contents of the
  local array \<^verbatim>\<open>padding\<close>, which is never initialised, and the catalog lookup
  \<^verbatim>\<open>get_typlen\<close>.
\<close>

record host_env =
  pointee :: "64 word \<Rightarrow> nat \<Rightarrow> byte"
  beyond_datum :: "nat \<Rightarrow> byte"
  padding :: "nat \<Rightarrow> byte"
  get_typlen :: "32 word \<Rightarrow> int"

definition OidIsValid :: "32 word \<Rightarrow> bool" where
  "OidIsValid oid = (oid \<noteq> 0)"

text \<open>
  \<^verbatim>\<open>VARSIZE\<close> of a pointer \<^verbatim>\<open>Datum\<close>: the four-byte header, shifted right by
  two, 30 bits.
\<close>

definition VARSIZE :: "host_env \<Rightarrow> 64 word \<Rightarrow> nat" where
  "VARSIZE env d = (le_nat (map (pointee env d) [0..<4]) div 4) mod 2 ^ 30"

text \<open>The \<open>n\<close> bytes at the address of a \<^verbatim>\<open>Datum\<close> object, and at the address it holds.\<close>

definition datum_object_bytes :: "host_env \<Rightarrow> 64 word \<Rightarrow> nat \<Rightarrow> byte list" where
  "datum_object_bytes env d n = take n (le_bytes 8 (unat d)) @ map (beyond_datum env) [8..<n]"

definition datum_pointer_bytes :: "host_env \<Rightarrow> 64 word \<Rightarrow> nat \<Rightarrow> byte list" where
  "datum_pointer_bytes env d n = map (pointee env d) [0..<n]"

text \<open>
  \<^verbatim>\<open>kern_parambuf\<close> is \<^verbatim>\<open>{ cl_uint length; cl_uint nparams; cl_uint poffset[]; }\<close>,
  so \<^verbatim>\<open>offsetof(kern_parambuf, poffset[n])\<close> is \<open>8 + 4 * n\<close>.
\<close>

definition offsetof_poffset :: "nat \<Rightarrow> nat" where
  "offsetof_poffset n = 8 + 4 * n"

definition set_poffset :: "byte list \<Rightarrow> nat \<Rightarrow> 32 word \<Rightarrow> byte list" where
  "set_poffset str index w = write_u32 str (offsetof_poffset index) w"

text \<open>The alignment step at the end of the loop body.\<close>

definition stromalign_pad :: "host_env \<Rightarrow> byte list \<Rightarrow> byte list" where
  "stromalign_pad env str =
     (if STROMALIGN (length str) \<noteq> length str
      then str @ map (padding env) [0..<STROMALIGN (length str) - length str]
      else str)"

text \<open>
  The hook call \<^verbatim>\<open>(*param_info->paramFetch) (param_info, param->paramid)\<close>, made
  when the entry has no valid type yet and a hook is installed.
\<close>

definition fetch_param :: "ParamListInfoData \<Rightarrow> Param_node \<Rightarrow> ParamListInfoData" where
  "fetch_param pinfo param =
     (let i = nat (paramid param - 1);
          prm = params pinfo ! i
      in case paramFetch pinfo of
           Some fetch \<Rightarrow>
             if \<not> OidIsValid (prm_ptype prm)
             then pinfo\<lparr>params := (params pinfo)[i := fetch (paramid param) prm]\<rparr>
             else pinfo
         | None \<Rightarrow> pinfo)"

text \<open>
  The branch for a bound parameter whose id is within \<open>1 .. numParams\<close>.  A parameter
  without a valid type gets the offset 0 and leaves the loop body at once
  (\<^verbatim>\<open>continue\<close>), without the alignment step.
\<close>

definition kparam_bound ::
  "host_env \<Rightarrow> ParamListInfoData \<Rightarrow> byte list \<Rightarrow> nat \<Rightarrow> Param_node
   \<Rightarrow> error + (ParamListInfoData option \<times> byte list \<times> nat)" where
  "kparam_bound env pinfo str index param =
     (let pinfo' = fetch_param pinfo param;
          prm = params pinfo' ! nat (paramid param - 1)
      in if \<not> OidIsValid (prm_ptype prm)
         then Inr (Some pinfo', set_poffset str index 0, index + 1)
         else if prm_ptype prm \<noteq> paramtype param then Inl Datatype_mismatch
         else if prm_isnull prm
         then Inr (Some pinfo', stromalign_pad env (set_poffset str index 0), index + 1)
         else
           let typlen = get_typlen env (prm_ptype prm)
           in if typlen = 0 then Inl Cache_lookup_failed
              else if typlen > 0
              then Inr (Some pinfo',
                        stromalign_pad env (str @ datum_object_bytes env (prm_value prm) (nat typlen)),
                        index + 1)
              else Inr (Some pinfo',
                        stromalign_pad env (str @ datum_pointer_bytes env (prm_value prm)
                                                    (VARSIZE env (prm_value prm))),
                        index + 1))"

text \<open>
  One pass of the loop body.  The state is the parameter list info (the hook may fill
  in an entry), the string buffer \<^verbatim>\<open>str\<close> and \<^verbatim>\<open>index\<close>.
\<close>

fun kparam_node ::
  "host_env \<Rightarrow> ParamListInfoData option \<times> byte list \<times> nat \<Rightarrow> Node
   \<Rightarrow> error + (ParamListInfoData option \<times> byte list \<times> nat)" where
  "kparam_node env (param_info, str, index) (Const con) =
     (let str1 =
            (if constisnull con then set_poffset str index 0
             else
               let str0 = set_poffset str index (of_nat (length str))
               in if constlen con > 0
                  then str0 @ datum_object_bytes env (constvalue con) (nat (constlen con))
                  else str0 @ datum_pointer_bytes env (constvalue con)
                                (VARSIZE env (constvalue con)))
      in Inr (param_info, stromalign_pad env str1, index + 1))"
| "kparam_node env (param_info, str, index) (Param param) =
     (case param_info of
        None \<Rightarrow> Inr (param_info, stromalign_pad env str, index + 1)
      | Some pinfo \<Rightarrow>
          if paramid param > 0 \<and> paramid param \<le> numParams pinfo
          then kparam_bound env pinfo str index param
          else Inr (param_info, stromalign_pad env str, index + 1))"
| "kparam_node env (param_info, str, index) Other_node = Inl Unexpected_node"

fun kparam_nodes ::
  "host_env \<Rightarrow> ParamListInfoData option \<times> byte list \<times> nat \<Rightarrow> Node list
   \<Rightarrow> error + (ParamListInfoData option \<times> byte list \<times> nat)" where
  "kparam_nodes env st [] = Inr st"
| "kparam_nodes env st (node # rest) =
     (case kparam_node env st node of
        Inl e \<Rightarrow> Inl e
      | Inr st' \<Rightarrow> kparam_nodes env st' rest)"

definition pgstrom_create_kern_parambuf ::
  "host_env \<Rightarrow> Node list \<Rightarrow> ExprContext \<Rightarrow> error + byte list" where
  "pgstrom_create_kern_parambuf env used_params econtext =
     (let nparams = length used_params;
          offset = STROMALIGN (offsetof_poffset nparams);
          str = replicate offset 0
      in case kparam_nodes env (ecxt_param_list_info econtext, str, 0) used_params of
           Inl e \<Rightarrow> Inl e
         | Inr (param_info, str', index) \<Rightarrow>
             if STROMALIGN (length str') \<noteq> length str' then Inl Assertion_failed
             else Inr (write_u32 (write_u32 str' 0 (of_nat (length str'))) 4 (of_nat nparams)))"

text \<open>The fields of a finished buffer.\<close>

definition kpbuf_length :: "byte list \<Rightarrow> 32 word" where
  "kpbuf_length kpbuf = read_u32 kpbuf 0"

definition kpbuf_nparams :: "byte list \<Rightarrow> 32 word" where
  "kpbuf_nparams kpbuf = read_u32 kpbuf 4"

definition kpbuf_poffset :: "byte list \<Rightarrow> nat \<Rightarrow> 32 word" where
  "kpbuf_poffset kpbuf i = read_u32 kpbuf (offsetof_poffset i)"

text \<open>
  A bound parameter that the function cannot resolve: there is no parameter list
  info, or its id is outside \<open>1 .. numParams\<close>.
\<close>

definition param_unresolved :: "ParamListInfoData option \<Rightarrow> Param_node \<Rightarrow> bool" where
  "param_unresolved param_info param =
     (case param_info of
        None \<Rightarrow> True
      | Some pinfo \<Rightarrow> \<not> (paramid param > 0 \<and> paramid param \<le> numParams pinfo))"

text \<open>
  \<open>slot_frame k str str'\<close>: the buffer \<open>str'\<close> is at least as long as \<open>str\<close> and
  agrees with it on every byte range of \<open>str\<close> that avoids the offset slot \<open>k\<close>.
\<close>

definition slot_frame :: "nat \<Rightarrow> byte list \<Rightarrow> byte list \<Rightarrow> bool" where
  "slot_frame k str str' =
     (length str \<le> length str'
      \<and> (\<forall>a n. a + n \<le> length str \<and> (a + n \<le> offsetof_poffset k \<or> offsetof_poffset k + 4 \<le> a)
             \<longrightarrow> read_bytes str' a n = read_bytes str a n))"

text \<open>A node that cannot raise: a constant, or a bound parameter that is not resolved.\<close>

fun quiet_node :: "ParamListInfoData option \<Rightarrow> Node \<Rightarrow> bool" where
  "quiet_node param_info (Const con) = True"
| "quiet_node param_info (Param param) = param_unresolved param_info param"
| "quiet_node param_info Other_node = False"

text \<open>
  Concrete inputs: a host whose memory and padding are zero and whose catalog knows
  no type; an evaluation context without parameter list info, and one with an empty
  parameter list; a bound parameter with id 1.
\<close>

definition example_host_env :: host_env where
  "example_host_env =
     \<lparr>pointee = (\<lambda>d a. 0), beyond_datum = (\<lambda>a. 0), padding = (\<lambda>a. 0),
      get_typlen = (\<lambda>oid. 0)\<rparr>"

definition no_param_list :: ExprContext where
  "no_param_list = \<lparr>ecxt_param_list_info = None\<rparr>"

definition empty_param_list :: ExprContext where
  "empty_param_list = \<lparr>ecxt_param_list_info = Some \<lparr>paramFetch = None, params = []\<rparr>\<rparr>"

definition example_param :: Param_node where
  "example_param = \<lparr>paramid = 1, paramtype = 23\<rparr>"

section \<open>The bitonic sort kernels\<close>

text \<open>
  The kernels reorder \<^verbatim>\<open>kresults->results\<close>, an array of row positions; the list
  \<open>results\<close> below is its first \<^verbatim>\<open>kresults->nitems\<close> entries, and
  \<open>keycomp\<close> is \<^verbatim>\<open>gpusort_keycomp\<close> for the slot chunk at hand.  Between
  two barriers every worker touches one pair of positions, and the pairs of different
  workers do not overlap, so a round is modelled as the workers taking their turn one
  after the other; the thread blocks of a launch work on separate partitions and take
  their turn likewise.

  All three kernels compute the pair of a worker by the same two formulas:
  \<^verbatim>\<open>idx0 = (id / halfUnitSize) * unitSize + id % halfUnitSize\<close> and
  \<^verbatim>\<open>idx1 = reversing ? ((idx0 & ~unitMask) | (~idx0 & unitMask)) : (halfUnitSize + idx0)\<close>
  with \<^verbatim>\<open>unitMask = unitSize - 1\<close>.  They are written on unbounded integers;
  the machine values agree as long as the indices are valid subscripts of the array.
\<close>

definition bitonic_idx0 :: "nat \<Rightarrow> nat \<Rightarrow> nat" where
  "bitonic_idx0 unitSize tid =
     (let halfUnitSize = unitSize div 2
      in (tid div halfUnitSize) * unitSize + tid mod halfUnitSize)"

definition bitonic_idx1 :: "nat \<Rightarrow> bool \<Rightarrow> nat \<Rightarrow> nat" where
  "bitonic_idx1 unitSize reversing idx0 =
     (let unitMask = int unitSize - 1;
          halfUnitSize = unitSize div 2
      in if reversing
         then nat ((int idx0 AND NOT unitMask) OR (NOT (int idx0) AND unitMask))
         else halfUnitSize + idx0)"

text \<open>Compare the rows at two positions of an index array and swap them when out of order.\<close>

definition keycomp_swap :: "('a \<Rightarrow> 'a \<Rightarrow> int) \<Rightarrow> nat \<Rightarrow> nat \<Rightarrow> 'a list \<Rightarrow> 'a list" where
  "keycomp_swap keycomp idx0 idx1 xs =
     (let pos0 = xs ! idx0; pos1 = xs ! idx1
      in if keycomp pos0 pos1 > 0 then xs[idx0 := pos1, idx1 := pos0] else xs)"

text \<open>One worker of a thread block between two barriers, on the shared array \<open>localIdx\<close>.\<close>

definition local_step ::
  "('a \<Rightarrow> 'a \<Rightarrow> int) \<Rightarrow> nat \<Rightarrow> nat \<Rightarrow> bool \<Rightarrow> nat \<Rightarrow> 'a list \<Rightarrow> 'a list" where
  "local_step keycomp part_size unitSize reversing local_id localIdx =
     (let idx0 = bitonic_idx0 unitSize local_id;
          idx1 = bitonic_idx1 unitSize reversing idx0
      in if idx1 < part_size then keycomp_swap keycomp idx0 idx1 localIdx else localIdx)"

text \<open>
  \<^verbatim>\<open>gpusort_bitonic_local\<close>: the loop over \<^verbatim>\<open>unitSize\<close> and the loop over
  \<^verbatim>\<open>blockSize\<close>, which starts at 2 and runs while
  \<^verbatim>\<open>blockSize <= part_size\<close>, where \<^verbatim>\<open>part_size\<close> is the size of the
  partition after it has been cut to the end of the array.
\<close>

function local_units ::
  "('a \<Rightarrow> 'a \<Rightarrow> int) \<Rightarrow> nat \<Rightarrow> nat \<Rightarrow> nat \<Rightarrow> nat \<Rightarrow> 'a list \<Rightarrow> 'a list" where
  "local_units keycomp local_size part_size blockSize unitSize localIdx =
     (if unitSize \<ge> 2
      then local_units keycomp local_size part_size blockSize (unitSize div 2)
             (fold (local_step keycomp part_size unitSize (unitSize = blockSize))
                [0..<local_size] localIdx)
      else localIdx)"
  by pat_completeness auto
termination
  by (relation "measure (\<lambda>(keycomp, local_size, part_size, blockSize, unitSize, localIdx). unitSize)")
    auto

declare local_units.simps [simp del]

function local_blocks ::
  "('a \<Rightarrow> 'a \<Rightarrow> int) \<Rightarrow> nat \<Rightarrow> nat \<Rightarrow> nat \<Rightarrow> 'a list \<Rightarrow> 'a list" where
  "local_blocks keycomp local_size part_size blockSize localIdx =
     (if 0 < blockSize \<and> blockSize \<le> part_size
      then local_blocks keycomp local_size part_size (blockSize * 2)
             (local_units keycomp local_size part_size blockSize blockSize localIdx)
      else localIdx)"
  by pat_completeness auto
termination
  by (relation "measure (\<lambda>(keycomp, local_size, part_size, blockSize, localIdx).
                    part_size + 1 - blockSize)")
    auto

declare local_blocks.simps [simp del]

text \<open>
  The partition of a thread block: \<^verbatim>\<open>part_base = part_id * part_size\<close> with
  \<^verbatim>\<open>part_size = 2 * get_local_size()\<close>, and the partition size after
  \<^verbatim>\<open>if (part_base + part_size > nitems) part_size = nitems - part_base;\<close>.
\<close>

definition partition_base :: "nat \<Rightarrow> nat \<Rightarrow> nat" where
  "partition_base local_size part_id = part_id * (2 * local_size)"

definition partition_size :: "nat \<Rightarrow> nat \<Rightarrow> nat \<Rightarrow> nat" where
  "partition_size local_size part_id n_items =
     (if partition_base local_size part_id + 2 * local_size > n_items
      then n_items - partition_base local_size part_id
      else 2 * local_size)"

text \<open>
  One thread block of \<^verbatim>\<open>gpusort_bitonic_local\<close>.  \<open>shm\<close> is what the shared
  array of the block holds when the kernel starts; it has \<open>2 * local_size\<close> entries
  (the launch asks for \<^verbatim>\<open>2 * sizeof(cl_uint) * block_sz.x\<close> bytes).  The block
  loads its partition, sorts, and writes the partition back.  The grids that
  \<^verbatim>\<open>gpusort_main\<close> launches keep \<^verbatim>\<open>part_base\<close> below \<^verbatim>\<open>nitems\<close>.
\<close>

definition gpusort_bitonic_local_block ::
  "('a \<Rightarrow> 'a \<Rightarrow> int) \<Rightarrow> nat \<Rightarrow> (nat \<Rightarrow> 'a list) \<Rightarrow> nat \<Rightarrow> 'a list \<Rightarrow> 'a list" where
  "gpusort_bitonic_local_block keycomp local_size shm part_id results =
     (let n_items = length results;
          part_base = partition_base local_size part_id;
          part_size = partition_size local_size part_id n_items;
          localIdx = take part_size (drop part_base results) @ drop part_size (shm part_id);
          localIdx' = local_blocks keycomp local_size part_size 2 localIdx
      in take part_base results @ take part_size localIdx'
         @ drop (part_base + part_size) results)"

definition gpusort_bitonic_local ::
  "('a \<Rightarrow> 'a \<Rightarrow> int) \<Rightarrow> nat \<Rightarrow> nat \<Rightarrow> (nat \<Rightarrow> 'a list) \<Rightarrow> 'a list \<Rightarrow> 'a list" where
  "gpusort_bitonic_local keycomp grid_size local_size shm results =
     fold (gpusort_bitonic_local_block keycomp local_size shm) [0..<grid_size] results"

text \<open>\<^verbatim>\<open>gpusort_bitonic_step\<close>: one worker, and a launch of \<open>nthreads\<close> workers.\<close>

definition gpusort_bitonic_step_thread ::
  "('a \<Rightarrow> 'a \<Rightarrow> int) \<Rightarrow> nat \<Rightarrow> bool \<Rightarrow> nat \<Rightarrow> 'a list \<Rightarrow> 'a list" where
  "gpusort_bitonic_step_thread keycomp unitsz reversing global_id results =
     (let idx0 = bitonic_idx0 unitsz global_id;
          idx1 = bitonic_idx1 unitsz reversing idx0
      in if idx1 \<ge> length results then results
         else keycomp_swap keycomp idx0 idx1 results)"

definition gpusort_bitonic_step ::
  "('a \<Rightarrow> 'a \<Rightarrow> int) \<Rightarrow> nat \<Rightarrow> nat \<Rightarrow> bool \<Rightarrow> 'a list \<Rightarrow> 'a list" where
  "gpusort_bitonic_step keycomp nthreads unitsz reversing results =
     fold (gpusort_bitonic_step_thread keycomp unitsz reversing) [0..<nthreads] results"

text \<open>
  \<^verbatim>\<open>gpusort_bitonic_merge\<close>.  \<^verbatim>\<open>blockSize\<close> keeps the uncut partition size;
  the load loop stops at \<^verbatim>\<open>i < part_size && i < 2048\<close>, the write-back loop at
  \<^verbatim>\<open>i < part_size\<close>.
\<close>

function merge_units ::
  "('a \<Rightarrow> 'a \<Rightarrow> int) \<Rightarrow> nat \<Rightarrow> nat \<Rightarrow> nat \<Rightarrow> 'a list \<Rightarrow> 'a list" where
  "merge_units keycomp local_size part_size unitSize localIdx =
     (if unitSize \<ge> 2
      then merge_units keycomp local_size part_size (unitSize div 2)
             (fold (local_step keycomp part_size unitSize False) [0..<local_size] localIdx)
      else localIdx)"
  by pat_completeness auto
termination
  by (relation "measure (\<lambda>(keycomp, local_size, part_size, unitSize, localIdx). unitSize)")
    auto

declare merge_units.simps [simp del]

definition merge_load :: "nat \<Rightarrow> nat \<Rightarrow> 'a list \<Rightarrow> 'a list \<Rightarrow> 'a list" where
  "merge_load part_base part_size shm_block results =
     take (min part_size 2048) (drop part_base results) @ drop (min part_size 2048) shm_block"

definition gpusort_bitonic_merge_block ::
  "('a \<Rightarrow> 'a \<Rightarrow> int) \<Rightarrow> nat \<Rightarrow> (nat \<Rightarrow> 'a list) \<Rightarrow> nat \<Rightarrow> 'a list \<Rightarrow> 'a list" where
  "gpusort_bitonic_merge_block keycomp local_size shm part_id results =
     (let n_items = length results;
          part_base = partition_base local_size part_id;
          blockSize = 2 * local_size;
          part_size = partition_size local_size part_id n_items;
          localIdx = merge_load part_base part_size (shm part_id) results;
          localIdx' = merge_units keycomp local_size part_size blockSize localIdx
      in take part_base results @ take part_size localIdx'
         @ drop (part_base + part_size) results)"

definition gpusort_bitonic_merge ::
  "('a \<Rightarrow> 'a \<Rightarrow> int) \<Rightarrow> nat \<Rightarrow> nat \<Rightarrow> (nat \<Rightarrow> 'a list) \<Rightarrow> 'a list \<Rightarrow> 'a list" where
  "gpusort_bitonic_merge keycomp grid_size local_size shm results =
     fold (gpusort_bitonic_merge_block keycomp local_size shm) [0..<grid_size] results"

section \<open>The control kernel \<^verbatim>\<open>gpusort_main\<close>\<close>

text \<open>
  \<^verbatim>\<open>get_next_log2(v)\<close>, declared in a project header: the least \<open>n\<close> with
  \<open>v \<le> 2 ^ n\<close>.  With it \<^verbatim>\<open>1 << (get_next_log2(x + 1) - 1)\<close> is the largest
  power of two that is at most \<open>x\<close>, for \<open>x \<ge> 1\<close>.
\<close>

function get_next_log2 :: "nat \<Rightarrow> nat" where
  "get_next_log2 v = (if v \<le> 1 then 0 else Suc (get_next_log2 ((v + 1) div 2)))"
  by pat_completeness auto
termination
  by (relation "measure (\<lambda>v. v)") auto

declare get_next_log2.simps [simp del]

definition UINT_MAX :: nat where
  "UINT_MAX = 4294967295"

text \<open>
  The common block size: the least, over the three kernels, of the block size
  \<^verbatim>\<open>pgstrom_largest_workgroup_size\<close> reports for the kernel, rounded down to a
  power of two.
\<close>

definition common_block_sz :: "nat list \<Rightarrow> nat" where
  "common_block_sz largest =
     fold (\<lambda>bx acc. min acc (2 ^ (get_next_log2 (bx + 1) - 1))) largest UINT_MAX"

text \<open>
  The inner loop over \<open>j\<close> (one launch of \<^verbatim>\<open>gpusort_bitonic_step\<close> per pass)
  and the outer loop over \<open>i\<close> (the inner loop, then one launch of
  \<^verbatim>\<open>gpusort_bitonic_merge\<close>).
\<close>

function main_steps ::
  "('a \<Rightarrow> 'a \<Rightarrow> int) \<Rightarrow> nat \<Rightarrow> nat \<Rightarrow> nat \<Rightarrow> 'a list \<Rightarrow> 'a list" where
  "main_steps keycomp block_sz i j results =
     (if j > block_sz
      then
        let unitsz = 2 * j;
            reversing = (j = 2 * i);
            n_items = length results;
            work_size = ((n_items + unitsz - 1) div unitsz) * unitsz div 2;
            grid_sz = (work_size + block_sz - 1) div block_sz
        in main_steps keycomp block_sz i (j div 2)
             (gpusort_bitonic_step keycomp (grid_sz * block_sz) unitsz reversing results)
      else results)"
  by pat_completeness auto
termination
  by (relation "measure (\<lambda>(keycomp, block_sz, i, j, results). j)") auto

declare main_steps.simps [simp del]

function main_passes ::
  "('a \<Rightarrow> 'a \<Rightarrow> int) \<Rightarrow> nat \<Rightarrow> (nat \<Rightarrow> 'a list) \<Rightarrow> nat \<Rightarrow> nat \<Rightarrow> 'a list \<Rightarrow> 'a list" where
  "main_passes keycomp block_sz shm nhalf i results =
     (if 0 < i \<and> i < nhalf
      then
        let n_items = length results;
            results1 = main_steps keycomp block_sz i (2 * i) results;
            grid_sz = ((n_items + 1) div 2 + block_sz - 1) div block_sz
        in main_passes keycomp block_sz shm nhalf (i * 2)
             (gpusort_bitonic_merge keycomp grid_sz block_sz shm results1)
      else results)"
  by pat_completeness auto
termination
  by (relation "measure (\<lambda>(keycomp, block_sz, shm, nhalf, i, results). nhalf - i)") auto

declare main_passes.simps [simp del]

text \<open>
  \<^verbatim>\<open>gpusort_main\<close>, as far as the result index array goes, in the run in which
  every call of the device runtime returns \<^verbatim>\<open>cudaSuccess\<close>; \<open>largest\<close> holds
  the block sizes reported for the three kernels.  The last launch,
  \<^verbatim>\<open>gpusort_fixup_pointers\<close>, reads the array and does not write it.
\<close>

definition gpusort_main ::
  "('a \<Rightarrow> 'a \<Rightarrow> int) \<Rightarrow> nat list \<Rightarrow> (nat \<Rightarrow> 'a list) \<Rightarrow> 'a list \<Rightarrow> 'a list" where
  "gpusort_main keycomp largest shm results =
     (let n_items = length results;
          block_sz = common_block_sz largest;
          nhalf = 2 ^ (get_next_log2 (n_items + 1) - 1);
          grid_sz = ((n_items + 1) div 2 + block_sz - 1) div block_sz;
          results1 = gpusort_bitonic_local keycomp grid_sz block_sz shm results
      in main_passes keycomp block_sz shm nhalf block_sz results1)"

text \<open>The order of the natural numbers as a three-way key comparison.\<close>

definition nat_keycomp :: "nat \<Rightarrow> nat \<Rightarrow> int" where
  "nat_keycomp x y = (if x < y then - 1 else if x > y then 1 else 0)"

section \<open>Facts about the alignment macros\<close>

lemma and_not_mask_int:
  fixes x :: int
  shows "x AND NOT (mask k) = (x div 2 ^ k) * 2 ^ k"
proof -
  have "x AND NOT (mask k) = push_bit k (drop_bit k x)"
    by (rule bit_eqI) (auto simp: bit_simps)
  then show ?thesis
    by (simp add: push_bit_eq_mult drop_bit_eq_div)
qed

lemma TYPEALIGN_pow2: "TYPEALIGN (2 ^ k) x = round_up (2 ^ k) x"
proof -
  have "(2::int) ^ k - 1 = mask k"
    by (simp add: mask_eq_exp_minus_1)
  then show ?thesis
    unfolding TYPEALIGN_def round_up_def
    by (simp add: and_not_mask_int algebra_simps)
qed

lemma TYPEALIGN_width:
  "TYPEALIGN (typealign_get_width a) x = round_up (typealign_get_width a) x"
proof (cases a)
  case TYPALIGN_CHAR
  then show ?thesis using TYPEALIGN_pow2 [of 0 x] by simp
next
  case TYPALIGN_SHORT
  then show ?thesis using TYPEALIGN_pow2 [of 1 x] by simp
next
  case TYPALIGN_INT
  then show ?thesis using TYPEALIGN_pow2 [of 2 x] by simp
next
  case TYPALIGN_DOUBLE
  then show ?thesis using TYPEALIGN_pow2 [of 3 x] by simp
qed

lemma TYPEALIGN_8: "TYPEALIGN 8 x = round_up 8 x"
  using TYPEALIGN_pow2 [of 3 x] by simp

lemma TYPEALIGN_16: "TYPEALIGN 16 x = round_up 16 x"
  using TYPEALIGN_pow2 [of 4 x] by simp

lemma round_up_ge: "0 < a \<Longrightarrow> x \<le> round_up a x"
proof -
  assume a: "0 < a"
  have "x + a - 1 = (x + a - 1) div a * a + (x + a - 1) mod a"
    by simp
  moreover have "(x + a - 1) mod a \<le> a - 1"
    using a pos_mod_bound [of a "x + a - 1"] by linarith
  ultimately show ?thesis
    unfolding round_up_def by linarith
qed

lemma LONGALIGN_eq: "LONGALIGN n = ((n + 7) div 8) * 8"
proof -
  have "round_up 8 (int n) = int (((n + 7) div 8) * 8)"
    unfolding round_up_def by (simp add: zdiv_int)
  then show ?thesis
    unfolding LONGALIGN_def TYPEALIGN_8 by (simp only: nat_int)
qed

lemma STROMALIGN_eq: "STROMALIGN n = ((n + 15) div 16) * 16"
proof -
  have "round_up 16 (int n) = int (((n + 15) div 16) * 16)"
    unfolding round_up_def by (simp add: zdiv_int)
  then show ?thesis
    unfolding STROMALIGN_def STROMALIGN_LEN_def
    by (simp only: TYPEALIGN_16 nat_int of_nat_numeral)
qed

section \<open>Cached column offsets\<close>

lemma sint_of_int32:
  "- (2 ^ 31) \<le> k \<Longrightarrow> k < 2 ^ 31 \<Longrightarrow> sint (word_of_int k :: 32 word) = k"
  by (simp add: sint_sbintrunc' signed_take_bit_int_eq_self)

lemma sint_of_int16:
  "- (2 ^ 15) \<le> k \<Longrightarrow> k < 2 ^ 15 \<Longrightarrow> sint (word_of_int k :: 16 word) = k"
  by (simp add: sint_sbintrunc' signed_take_bit_int_eq_self)

lemma sint16_range: "- (2 ^ 15) \<le> sint (w :: 16 word)" "sint (w :: 16 word) < 2 ^ 15"
  using sint_ge [of w] sint_lt [of w] by simp_all

lemma init_colmeta_unknown:
  "map (\<lambda>cmeta. sint (attcacheoff cmeta)) (init_colmeta internal_format (- 1) atts)
   = spec_cacheoffs internal_format None atts"
  by (induction atts) (simp_all add: Let_def)

lemma aligned_width_pos:
  assumes "0 < off"
  shows "0 < round_up (typealign_get_width a) off" and "0 < round_up 8 off"
proof -
  have "0 < typealign_get_width a" by (cases a) simp_all
  then show "0 < round_up (typealign_get_width a) off"
    using round_up_ge [of "typealign_get_width a" off] assms by linarith
  show "0 < round_up 8 off"
    using round_up_ge [of 8 off] assms by linarith
qed

text \<open>
  As long as the running offset is positive and below \<open>2 ^ 16\<close> and every offset
  of the specification fits 16 bits, the loop records the offsets of the specification.
\<close>

lemma init_colmeta_known:
  assumes "0 < sint off" and "sint off < 2 ^ 16"
    and "\<forall>x \<in> set (spec_cacheoffs internal_format (Some (sint off)) atts). x \<le> 32767"
  shows "map (\<lambda>cmeta. sint (attcacheoff cmeta)) (init_colmeta internal_format off atts)
         = spec_cacheoffs internal_format (Some (sint off)) atts"
  using assms
proof (induction atts arbitrary: off)
  case Nil
  show ?case by simp
next
  case (Cons attr rest)
  define fixup where "fixup = (internal_format \<and> pg_atttypid attr = NUMERICOID)"
  define len where "len = (if fixup then 8 else sint (pg_attlen attr))"
  define align where "align = (if fixup then 8 else typealign_get_width (pg_attalign attr))"
  define r where "r = round_up align (sint off)"
  have al: "TYPEALIGN align (sint off) = r"
    unfolding align_def r_def by (simp add: TYPEALIGN_8 TYPEALIGN_width)
  have pos: "0 < r"
    unfolding align_def r_def using aligned_width_pos [OF Cons.prems(1)] by simp
  have lenb: "len < 2 ^ 15"
    unfolding len_def using sint16_range(2) [of "pg_attlen attr"] by simp
  show ?case
  proof (cases "len > 0")
    case True
    have sp: "spec_cacheoffs internal_format (Some (sint off)) (attr # rest)
              = r # spec_cacheoffs internal_format (Some (r + len)) rest"
      using True
      by (simp add: Let_def fixup_def [symmetric] len_def [symmetric] align_def [symmetric]
          r_def [symmetric])
    have rb: "r \<le> 32767" using Cons.prems(3) unfolding sp by simp
    have s1: "sint (word_of_int r :: 32 word) = r"
      by (rule sint_of_int32) (use pos rb in simp_all)
    have s2: "sint (word_of_int r :: 16 word) = r"
      by (rule sint_of_int16) (use pos rb in simp_all)
    have "(scast (word_of_int r :: 32 word) :: 16 word)
          = word_of_int (sint (word_of_int r :: 32 word))"
      by (rule of_int_sint [symmetric])
    then have sc: "(scast (word_of_int r :: 32 word) :: 16 word) = word_of_int r"
      by (simp only: s1)
    define off2 :: "32 word" where "off2 = word_of_int r + word_of_int len"
    have "off2 = word_of_int (r + len)" unfolding off2_def by simp
    then have s3: "sint off2 = r + len"
      using sint_of_int32 [of "r + len"] pos rb True lenb by simp
    have step: "init_colmeta internal_format off (attr # rest)
                = \<lparr>attbyval = (if fixup then True else pg_attbyval attr),
                    attalign = word_of_int align, attlen = word_of_int len,
                    attnum = word_of_int (sint (pg_attnum attr)),
                    attcacheoff = word_of_int r\<rparr> # init_colmeta internal_format off2 rest"
      using True Cons.prems(1) pos s1 sc
      by (simp add: Let_def fixup_def [symmetric] len_def [symmetric] align_def [symmetric]
          al off2_def)
    have "map (\<lambda>cmeta. sint (attcacheoff cmeta)) (init_colmeta internal_format off2 rest)
          = spec_cacheoffs internal_format (Some (sint off2)) rest"
    proof (rule Cons.IH)
      show "0 < sint off2" unfolding s3 using pos True by simp
      show "sint off2 < 2 ^ 16" unfolding s3 using rb lenb by simp
      show "\<forall>x \<in> set (spec_cacheoffs internal_format (Some (sint off2)) rest). x \<le> 32767"
        unfolding s3 using Cons.prems(3) unfolding sp by simp
    qed
    then show ?thesis unfolding step sp by (simp add: s2 s3)
  next
    case False
    then show ?thesis
      using Cons.prems(1) init_colmeta_unknown [of internal_format rest]
      by (simp add: Let_def fixup_def [symmetric] len_def [symmetric] align_def [symmetric])
  qed
qed

lemma initial_attcacheoff_spec: "initial_attcacheoff tupdesc = spec_initial_offset tupdesc"
  by (simp add: initial_attcacheoff_def spec_initial_offset_def MAXALIGN_def TYPEALIGN_8
      offsetof_t_bits_def sizeof_Oid_def)

lemma spec_initial_offset_cases:
  "spec_initial_offset tupdesc = (if tdhasoid_of tupdesc then 32 else 24)"
  by (simp add: spec_initial_offset_def round_up_def)

lemma sint_initial_offset:
  "sint (word_of_int (spec_initial_offset tupdesc) :: 32 word) = spec_initial_offset tupdesc"
  by (simp add: spec_initial_offset_cases)

text \<open>
  Claim C3, as far as the code goes.  Take any column-descriptor list for which the
  offsets of \<open>spec_cacheoffs\<close> all fit the 16-bit field that holds a cached offset,
  that is, none exceeds 32767.  Then the cached offsets that
  \<^verbatim>\<open>init_kern_data_store\<close> records are the ones of \<open>spec_cacheoffs\<close>:
  the running offset starts after the fixed row header (plus the OID slot when the row
  type has one), rounded up to 8; a fixed-width column gets the running offset rounded up
  to its alignment, and the running offset advances by its length; the first
  variable-width column, and every column after it, gets \<open>-1\<close>.  Whether a column is
  nullable plays no part: \<open>pg_attnotnull\<close> is not read.
\<close>

theorem init_kern_data_store_attcacheoff:
  assumes "\<forall>x \<in> set (spec_cacheoffs internal_format (Some (spec_initial_offset tupdesc))
                        (attrs tupdesc)). x \<le> 32767"
  shows "cached_offsets (init_kern_data_store kds kds_addr tupdesc len fmt rooms internal_format)
         = spec_cacheoffs internal_format (Some (spec_initial_offset tupdesc)) (attrs tupdesc)"
proof -
  define off :: "32 word" where "off = word_of_int (spec_initial_offset tupdesc)"
  have s: "sint off = spec_initial_offset tupdesc"
    unfolding off_def by (rule sint_initial_offset)
  have "0 < sint off" "sint off < 2 ^ 16"
    unfolding s by (simp_all add: spec_initial_offset_cases)
  moreover have "\<forall>x \<in> set (spec_cacheoffs internal_format (Some (sint off)) (attrs tupdesc)).
                   x \<le> 32767"
    unfolding s by (rule assms)
  ultimately have "map (\<lambda>cmeta. sint (attcacheoff cmeta))
                     (init_colmeta internal_format off (attrs tupdesc))
                   = spec_cacheoffs internal_format (Some (sint off)) (attrs tupdesc)"
    by (rule init_colmeta_known)
  then have "map (\<lambda>cmeta. sint (attcacheoff cmeta))
               (init_colmeta internal_format off (attrs tupdesc))
             = spec_cacheoffs internal_format (Some (spec_initial_offset tupdesc)) (attrs tupdesc)"
    unfolding s .
  then show ?thesis
    unfolding cached_offsets_def init_kern_data_store_def off_def
    by (simp add: initial_attcacheoff_spec)
qed

lemma mixed_columns_spec:
  "spec_cacheoffs False (Some (spec_initial_offset mixed_columns)) (attrs mixed_columns)
   = [24, 32, - 1, - 1]"
  by (simp add: spec_initial_offset_cases mixed_columns_def nullable_int4_def round_up_def
      Let_def)

theorem init_kern_data_store_attcacheoff_witness:
  "spec_cacheoffs False (Some (spec_initial_offset mixed_columns)) (attrs mixed_columns)
   = [24, 32, - 1, - 1]
   \<and> cached_offsets (init_kern_data_store blank_chunk 0 mixed_columns 4096 KDS_FORMAT_ROW 100 False)
     = [24, 32, - 1, - 1]"
  using init_kern_data_store_attcacheoff [of False mixed_columns blank_chunk 0 4096
      KDS_FORMAT_ROW 100]
  by (simp add: mixed_columns_spec)

text \<open>
  Claim C3 as it is written fails in two ways.  It lets a nullable column end the
  caching, and the code does not: for a row type whose only column is a nullable
  \<^verbatim>\<open>int4\<close> the recorded offset is 24, where the rule of the claim
  (\<open>claimed_cacheoffs\<close>) gives \<open>-1\<close>.  And it speaks of every column list, while
  the field that holds the offset has 16 bits: for a column of 32767 bytes followed by
  a one-byte column, both not null, the rule of the claim gives the second column the
  offset 32791, and the chunk records \<open>-32745\<close>.
\<close>

theorem nullable_column_keeps_cached_offset:
  "\<not> pg_attnotnull nullable_int4
   \<and> cached_offsets (init_kern_data_store blank_chunk 0 one_nullable_column
                       4096 KDS_FORMAT_ROW 100 False) = [24]
   \<and> claimed_cacheoffs False (Some (spec_initial_offset one_nullable_column))
        (attrs one_nullable_column) = [- 1]
   \<and> cached_offsets (init_kern_data_store blank_chunk 0 wide_then_char
                       4096 KDS_FORMAT_ROW 100 False) = [24, - 32745]
   \<and> claimed_cacheoffs False (Some (spec_initial_offset wide_then_char))
        (attrs wide_then_char) = [24, 32791]"
proof -
  have i: "initial_attcacheoff one_nullable_column = 24" "initial_attcacheoff wide_then_char = 24"
    by (simp_all add: initial_attcacheoff_spec spec_initial_offset_cases
        one_nullable_column_def wide_then_char_def)
  have a: "cached_offsets (init_kern_data_store blank_chunk 0 one_nullable_column
                       4096 KDS_FORMAT_ROW 100 False) = [24]"
    unfolding cached_offsets_def init_kern_data_store_def
    by (simp add: i) (simp add: one_nullable_column_def nullable_int4_def Let_def TYPEALIGN_def)
  have b: "claimed_cacheoffs False (Some (spec_initial_offset one_nullable_column))
        (attrs one_nullable_column) = [- 1]"
    by (simp add: spec_initial_offset_cases one_nullable_column_def nullable_int4_def Let_def)
  have c: "cached_offsets (init_kern_data_store blank_chunk 0 wide_then_char
                       4096 KDS_FORMAT_ROW 100 False) = [24, - 32745]"
    unfolding cached_offsets_def init_kern_data_store_def
    by (simp add: i) (simp add: wide_then_char_def Let_def TYPEALIGN_def)
  have d: "claimed_cacheoffs False (Some (spec_initial_offset wide_then_char))
        (attrs wide_then_char) = [24, 32791]"
    by (simp add: spec_initial_offset_cases wide_then_char_def Let_def round_up_def)
  have "\<not> pg_attnotnull nullable_int4" by (simp add: nullable_int4_def)
  then show ?thesis using a b c d by simp
qed
section \<open>Bytes and stores\<close>

lemma length_le_bytes [simp]: "length (le_bytes n x) = n"
  by (induction n arbitrary: x) simp_all

lemma le_nat_le_bytes: "le_nat (le_bytes n x) = x mod 256 ^ n"
proof (induction n arbitrary: x)
  case 0
  show ?case by simp
next
  case (Suc n)
  have "unat (of_nat (x mod 256) :: byte) = x mod 256"
    by (simp add: unat_of_nat)
  then show ?case
    by (simp add: Suc.IH mod_mult2_eq)
qed

lemma read_u32_le_bytes:
  "of_nat (le_nat (le_bytes 4 (unat (w :: 32 word)))) = w"
proof -
  have "unat w < 2 ^ 32" using unsigned_less [of w] by simp
  then have "unat w mod 256 ^ 4 = unat w" by simp
  then show ?thesis by (simp add: le_nat_le_bytes)
qed

lemma unat_of_nat32: "n < 2 ^ 32 \<Longrightarrow> unat (of_nat n :: 32 word) = n"
  by (simp add: unat_of_nat)

lemma length_write_bytes:
  "off + length bs \<le> length m \<Longrightarrow> length (write_bytes m off bs) = length m"
  by (simp add: write_bytes_def)

lemma read_write_same:
  "off + length bs \<le> length m \<Longrightarrow> read_bytes (write_bytes m off bs) off (length bs) = bs"
  by (simp add: write_bytes_def read_bytes_def)

lemma nth_write_bytes:
  assumes "off + length bs \<le> length m" "i < length m"
  shows "write_bytes m off bs ! i = (if off \<le> i \<and> i < off + length bs then bs ! (i - off) else m ! i)"
  using assms by (auto simp: write_bytes_def nth_append min_def)

lemma read_write_other:
  assumes "off + length bs \<le> length m" "off' + n \<le> off \<or> off + length bs \<le> off'"
  shows "read_bytes (write_bytes m off bs) off' n = read_bytes m off' n"
proof (rule nth_equalityI)
  show "length (read_bytes (write_bytes m off bs) off' n) = length (read_bytes m off' n)"
    using assms by (simp add: read_bytes_def length_write_bytes)
next
  fix i assume "i < length (read_bytes (write_bytes m off bs) off' n)"
  then have i: "i < n" "off' + i < length m"
    using assms by (auto simp: read_bytes_def length_write_bytes)
  then show "read_bytes (write_bytes m off bs) off' n ! i = read_bytes m off' n ! i"
    using assms by (auto simp: read_bytes_def length_write_bytes nth_write_bytes)
qed

lemma store_bytes_Inr:
  "store_bytes m off bs = Inr m' \<Longrightarrow> off + length bs \<le> length m \<and> m' = write_bytes m off bs"
  by (auto simp: store_bytes_def split: if_splits)

section \<open>Insertion followed by fetch\<close>

text \<open>What the stores of one item leave in memory, and what they leave alone.\<close>

lemma put_tupitem_Inr:
  assumes put: "put_tupitem m T tuple = Inr m'"
    and self: "length (t_self tuple) = sizeof_ItemPointerData"
    and data: "length (t_data tuple) = unat (t_len tuple)"
  shows "length m' = length m"
    and "read_bytes m' T 4 = le_bytes 4 (unat (t_len tuple))"
    and "read_bytes m' (T + 4) sizeof_ItemPointerData = t_self tuple"
    and "read_bytes m' (T + offsetof_htup) (unat (t_len tuple)) = t_data tuple"
    and "off + n \<le> T \<Longrightarrow> read_bytes m' off n = read_bytes m off n"
proof -
  let ?b1 = "le_bytes 4 (unat (t_len tuple))"
  let ?b3 = "take (unat (t_len tuple)) (t_data tuple)"
  obtain m1 m2 where s1: "store_bytes m T ?b1 = Inr m1"
    and s2: "store_bytes m1 (T + 4) (t_self tuple) = Inr m2"
    and s3: "store_bytes m2 (T + offsetof_htup) ?b3 = Inr m'"
    using put by (auto simp: put_tupitem_def split: sum.splits)
  have b3: "?b3 = t_data tuple" using data by simp
  have r1: "T + 4 \<le> length m" and m1: "m1 = write_bytes m T ?b1"
    using store_bytes_Inr [OF s1] by simp_all
  have l1: "length m1 = length m" using r1 by (simp add: m1 length_write_bytes)
  have r2: "T + 4 + length (t_self tuple) \<le> length m1" and m2: "m2 = write_bytes m1 (T + 4) (t_self tuple)"
    using store_bytes_Inr [OF s2] by simp_all
  have l2: "length m2 = length m" using r2 l1 by (simp add: m2 length_write_bytes)
  have r3: "T + offsetof_htup + length (t_data tuple) \<le> length m2"
    and m3: "m' = write_bytes m2 (T + offsetof_htup) (t_data tuple)"
    using store_bytes_Inr [OF s3] b3 by simp_all
  show "length m' = length m" using r3 l2 by (simp add: m3 length_write_bytes)
  have "read_bytes m' T 4 = read_bytes m2 T 4"
    unfolding m3 by (rule read_write_other [OF r3]) (simp add: offsetof_htup_def)
  also have "\<dots> = read_bytes m1 T 4"
    unfolding m2 by (rule read_write_other [OF r2]) simp
  also have "\<dots> = ?b1"
    unfolding m1 using read_write_same [of T ?b1 m] r1 by simp
  finally show "read_bytes m' T 4 = ?b1" .
  have "read_bytes m' (T + 4) sizeof_ItemPointerData = read_bytes m2 (T + 4) sizeof_ItemPointerData"
    unfolding m3 by (rule read_write_other [OF r3])
      (simp add: offsetof_htup_def sizeof_ItemPointerData_def)
  also have "\<dots> = t_self tuple"
    unfolding m2 using read_write_same [OF r2] self by simp
  finally show "read_bytes m' (T + 4) sizeof_ItemPointerData = t_self tuple" .
  show "read_bytes m' (T + offsetof_htup) (unat (t_len tuple)) = t_data tuple"
    unfolding m3 using read_write_same [OF r3] data by simp
  show "read_bytes m' off n = read_bytes m off n" if "off + n \<le> T"
  proof -
    have "read_bytes m' off n = read_bytes m2 off n"
      unfolding m3 by (rule read_write_other [OF r3]) (use that in simp)
    also have "\<dots> = read_bytes m1 off n"
      unfolding m2 by (rule read_write_other [OF r2]) (use that in simp)
    also have "\<dots> = read_bytes m off n"
      unfolding m1 by (rule read_write_other) (use that r1 in simp_all)
    finally show ?thesis .
  qed
qed

text \<open>
  Claim C2.  Whenever \<^verbatim>\<open>pgstrom_data_store_insert_tuple\<close> returns \<^verbatim>\<open>true\<close>
  for a row (a row handle whose identity is the six bytes of an
  \<^verbatim>\<open>ItemPointerData\<close> and whose \<^verbatim>\<open>t_data\<close> holds \<^verbatim>\<open>t_len\<close> bytes),
  \<^verbatim>\<open>kern_fetch_data_store\<close> at the index the row was given, the item count before the
  insertion, succeeds and yields the same row length, the same row identity and the same
  encoded bytes.
\<close>

theorem insert_tuple_then_fetch:
  assumes ins: "pgstrom_data_store_insert_tuple kds slot = Inr (True, kds')"
    and self: "length (t_self (tts_tuple slot)) = sizeof_ItemPointerData"
    and data: "length (t_data (tts_tuple slot)) = unat (t_len (tts_tuple slot))"
  shows "kern_fetch_data_store kds' (unat (nitems kds)) = Inr (Some (Row_tuple (tts_tuple slot)))"
proof -
  define tuple where "tuple = tts_tuple slot"
  define B where "B = KERN_DATA_STORE_BODY kds"
  define N where "N = unat (nitems kds)"
  define L where "L = unat (length_kds kds)"
  define A where "A = LONGALIGN (offsetof_htup + unat (t_len tuple))"
  define U where "U = unat (usage kds)"
  define T where "T = L - (U + A)"
  have room: "nitems kds < nrooms kds" and fmt: "format kds = KDS_FORMAT_ROW"
    and fits: "B + sizeof_uint * (N + 1) + U + A \<le> L"
    using ins
    by (auto simp: pgstrom_data_store_insert_tuple_def Let_def tuple_consume_def B_def N_def
        L_def A_def U_def tuple_def split: if_splits)
  have Llt: "L < 2 ^ 32" unfolding L_def using unsigned_less [of "length_kds kds"] by simp
  define usage' where "usage' = (of_nat (U + A) :: 32 word)"
  have "U + A < 2 ^ 32" using fits Llt by simp
  then have UA: "unat usage' = U + A"
    unfolding usage'_def by (rule unat_of_nat32)
  have "T < 2 ^ 32" using Llt by (simp add: T_def)
  then have TT: "unat (of_nat T :: 32 word) = T"
    by (rule unat_of_nat32)
  obtain m1 m2 where put: "put_tupitem (mem kds) T tuple = Inr m1"
    and idx: "store_bytes m1 (B + sizeof_uint * N) (le_bytes 4 (unat (of_nat T :: 32 word))) = Inr m2"
    and kds': "kds' = kds\<lparr>usage := usage', nitems := nitems kds + 1, mem := m2\<rparr>"
    using ins room fmt fits UA
    unfolding pgstrom_data_store_insert_tuple_def Let_def tuple_consume_def B_def [symmetric]
      N_def [symmetric] L_def [symmetric] tuple_def [symmetric] A_def [symmetric]
      U_def [symmetric] usage'_def [symmetric]
    by (auto simp: T_def split: if_splits sum.splits)
  note item = put_tupitem_Inr [OF put self [folded tuple_def] data [folded tuple_def]]
  have ri: "B + sizeof_uint * N + 4 \<le> length m1"
    and m2: "m2 = write_bytes m1 (B + sizeof_uint * N) (le_bytes 4 T)"
    using store_bytes_Inr [OF idx] TT by simp_all
  have below: "B + sizeof_uint * N + 4 \<le> T"
    using fits by (simp add: T_def sizeof_uint_def)
  have after: "read_bytes m2 off n = read_bytes m1 off n" if "T \<le> off" for off n
    unfolding m2 by (rule read_write_other) (use ri below that in simp_all)
  have "N < unat (nrooms kds)"
    using room by (simp add: N_def word_less_nat_alt)
  moreover have "unat (nrooms kds) < 2 ^ 32"
    using unsigned_less [of "nrooms kds"] by simp
  ultimately have "N + 1 < 2 ^ 32" by simp
  then have N1: "unat (nitems kds + 1) = N + 1"
    by (simp add: unat_word_ariths N_def)
  have body: "KERN_DATA_STORE_BODY kds' = B"
    by (simp add: kds' KERN_DATA_STORE_BODY_def B_def)
  have "read_bytes m2 (B + sizeof_uint * N) 4 = le_bytes 4 T"
    unfolding m2 using read_write_same [of "B + sizeof_uint * N" "le_bytes 4 T" m1] ri by simp
  then have "read_u32 m2 (B + sizeof_uint * N) = of_nat T"
    using read_u32_le_bytes [of "of_nat T"] TT by (simp add: read_u32_def)
  then have item_off: "KERN_DATA_STORE_TUPITEM kds' N = T"
    unfolding KERN_DATA_STORE_TUPITEM_def body using TT by (simp add: kds')
  have len: "read_u32 m2 T = t_len tuple"
    using after [of T 4] item(2) read_u32_le_bytes [of "t_len tuple"] by (simp add: read_u32_def)
  have slf: "read_bytes m2 (T + 4) sizeof_ItemPointerData = t_self tuple"
    using after [of "T + 4"] item(3) by simp
  have dat: "read_bytes m2 (T + offsetof_htup) (unat (t_len tuple)) = t_data tuple"
    using after [of "T + offsetof_htup"] item(4) by simp
  have "kern_fetch_data_store kds' N = Inr (Some (Row_tuple tuple))"
    unfolding kern_fetch_data_store_def Let_def item_off
    using N1 fmt len slf dat by (simp add: kds')
  then show ?thesis by (simp add: N_def tuple_def)
qed

text \<open>
  The hypothesis of the last theorem is met whenever the two checks of the function
  pass on a chunk whose memory is as long as its header says.
\<close>

lemma insert_tuple_succeeds:
  assumes room: "nitems kds < nrooms kds"
    and cols: "unat (ncols kds) = tts_natts slot"
    and fmt: "format kds = KDS_FORMAT_ROW"
    and fits: "tuple_consume kds (tts_tuple slot) \<le> unat (length_kds kds)"
    and whole: "length (mem kds) = unat (length_kds kds)"
    and self: "length (t_self (tts_tuple slot)) = sizeof_ItemPointerData"
  shows "\<exists>kds'. pgstrom_data_store_insert_tuple kds slot = Inr (True, kds')"
proof -
  define tuple where "tuple = tts_tuple slot"
  define B where "B = KERN_DATA_STORE_BODY kds"
  define N where "N = unat (nitems kds)"
  define L where "L = unat (length_kds kds)"
  define A where "A = LONGALIGN (offsetof_htup + unat (t_len tuple))"
  define U where "U = unat (usage kds)"
  define T where "T = L - (U + A)"
  define usage' where "usage' = (of_nat (U + A) :: 32 word)"
  have f: "B + sizeof_uint * (N + 1) + U + A \<le> L"
    using fits by (simp add: tuple_consume_def B_def N_def L_def A_def U_def tuple_def)
  have Llt: "L < 2 ^ 32" unfolding L_def using unsigned_less [of "length_kds kds"] by simp
  have "U + A < 2 ^ 32" using f Llt by simp
  then have UA: "unat usage' = U + A"
    unfolding usage'_def by (rule unat_of_nat32)
  have big: "offsetof_htup + unat (t_len tuple) \<le> A"
    unfolding A_def LONGALIGN_eq by presburger
  have T: "T + A \<le> L" "B + sizeof_uint * N + 4 \<le> T"
    using f by (simp_all add: T_def sizeof_uint_def)
  have lenm: "length (mem kds) = L" using whole by (simp add: L_def)
  have "\<exists>m1. put_tupitem (mem kds) T tuple = Inr m1 \<and> length m1 = L"
    using T big lenm self
    by (simp add: put_tupitem_def store_bytes_def length_write_bytes tuple_def
        offsetof_htup_def sizeof_ItemPointerData_def)
  then obtain m1 where put: "put_tupitem (mem kds) T tuple = Inr m1" and l1: "length m1 = L"
    by blast
  have idx: "\<exists>m2. store_bytes m1 (B + sizeof_uint * N) (le_bytes 4 (unat (of_nat T :: 32 word))) = Inr m2"
    using T l1 by (simp add: store_bytes_def)
  show ?thesis
    using room cols fmt f put idx UA
    unfolding pgstrom_data_store_insert_tuple_def Let_def tuple_consume_def B_def [symmetric]
      N_def [symmetric] L_def [symmetric] tuple_def [symmetric] A_def [symmetric]
      U_def [symmetric] usage'_def [symmetric]
    by (auto simp: T_def)
qed

lemma example_row_chunk_fields:
  "format example_row_chunk = KDS_FORMAT_ROW"
  "length_kds example_row_chunk = 256"
  "usage example_row_chunk = 0"
  "nitems example_row_chunk = 0"
  "ncols example_row_chunk = 1"
  "nrooms example_row_chunk = 2147483647"
  "mem example_row_chunk = replicate 256 0"
  by (simp_all add: example_row_chunk_def init_kern_data_store_def blank_chunk_def
      one_nullable_column_def natts_def INT_MAX_def)

lemma example_body: "KERN_DATA_STORE_BODY example_row_chunk = 48"
  by (simp add: KERN_DATA_STORE_BODY_def example_row_chunk_fields STROMALIGN_eq offsetof_colmeta_def)

lemma example_body_upd:
  "KERN_DATA_STORE_BODY (example_row_chunk\<lparr>usage := u\<rparr>) = 48"
  "KERN_DATA_STORE_BODY (example_row_chunk\<lparr>nrooms := r\<rparr>) = 48"
  using example_body by (simp_all add: KERN_DATA_STORE_BODY_def)

lemma example_insert:
  "pgstrom_data_store_insert_tuple example_row_chunk example_slot = Inr (True, example_chunk_after)"
  by (simp add: pgstrom_data_store_insert_tuple_def Let_def example_row_chunk_fields
      example_body tuple_consume_def example_slot_def example_tuple_def LONGALIGN_eq
      offsetof_htup_def sizeof_uint_def put_tupitem_def store_bytes_def write_bytes_def
      ItemPointerSet_def example_chunk_after_def)

theorem insert_tuple_then_fetch_witness:
  "pgstrom_data_store_insert_tuple example_row_chunk example_slot = Inr (True, example_chunk_after)
   \<and> length (t_self (tts_tuple example_slot)) = sizeof_ItemPointerData
   \<and> length (t_data (tts_tuple example_slot)) = unat (t_len (tts_tuple example_slot))
   \<and> kern_fetch_data_store example_chunk_after (unat (nitems example_row_chunk))
       = Inr (Some (Row_tuple (tts_tuple example_slot)))"
proof -
  have self: "length (t_self (tts_tuple example_slot)) = sizeof_ItemPointerData"
    by (simp add: example_slot_def example_tuple_def ItemPointerSet_def sizeof_ItemPointerData_def)
  have data: "length (t_data (tts_tuple example_slot)) = unat (t_len (tts_tuple example_slot))"
    by (simp add: example_slot_def example_tuple_def)
  show ?thesis
    using example_insert self data insert_tuple_then_fetch [OF example_insert self data]
    by simp
qed

section \<open>Refused insertions\<close>

text \<open>
  Claim C5.  When the item count has reached the capacity,
  \<^verbatim>\<open>pgstrom_data_store_insert_tuple\<close> returns \<^verbatim>\<open>false\<close> and the chunk it
  leaves is the chunk it was given, whatever the chunk and the row are.  The same
  holds when the function gets as far as its space check, that is, for a row-format
  chunk below its capacity whose column count is the slot's, and the end of the index
  array with one more entry, plus the usage, plus the aligned size of the new item
  (\<open>tuple_consume\<close>) exceeds the chunk length.
\<close>

theorem insert_tuple_no_room:
  "(nrooms kds \<le> nitems kds \<longrightarrow> pgstrom_data_store_insert_tuple kds slot = Inr (False, kds))
   \<and> (nitems kds < nrooms kds \<and> unat (ncols kds) = tts_natts slot \<and> format kds = KDS_FORMAT_ROW
        \<and> unat (length_kds kds) < tuple_consume kds (tts_tuple slot)
      \<longrightarrow> pgstrom_data_store_insert_tuple kds slot = Inr (False, kds))"
  by (simp add: pgstrom_data_store_insert_tuple_def Let_def)

theorem insert_tuple_no_room_witness:
  "nrooms (example_row_chunk\<lparr>nrooms := 0\<rparr>) \<le> nitems (example_row_chunk\<lparr>nrooms := 0\<rparr>)
   \<and> pgstrom_data_store_insert_tuple (example_row_chunk\<lparr>nrooms := 0\<rparr>) example_slot
       = Inr (False, example_row_chunk\<lparr>nrooms := 0\<rparr>)
   \<and> nitems (example_row_chunk\<lparr>usage := 200\<rparr>) < nrooms (example_row_chunk\<lparr>usage := 200\<rparr>)
   \<and> unat (ncols (example_row_chunk\<lparr>usage := 200\<rparr>)) = tts_natts example_slot
   \<and> format (example_row_chunk\<lparr>usage := 200\<rparr>) = KDS_FORMAT_ROW
   \<and> unat (length_kds (example_row_chunk\<lparr>usage := 200\<rparr>))
       < tuple_consume (example_row_chunk\<lparr>usage := 200\<rparr>) (tts_tuple example_slot)
   \<and> pgstrom_data_store_insert_tuple (example_row_chunk\<lparr>usage := 200\<rparr>) example_slot
       = Inr (False, example_row_chunk\<lparr>usage := 200\<rparr>)"
proof -
  have full: "nrooms (example_row_chunk\<lparr>nrooms := 0\<rparr>) \<le> nitems (example_row_chunk\<lparr>nrooms := 0\<rparr>)"
    by (simp add: example_row_chunk_fields)
  have tight: "nitems (example_row_chunk\<lparr>usage := 200\<rparr>) < nrooms (example_row_chunk\<lparr>usage := 200\<rparr>)
     \<and> unat (ncols (example_row_chunk\<lparr>usage := 200\<rparr>)) = tts_natts example_slot
     \<and> format (example_row_chunk\<lparr>usage := 200\<rparr>) = KDS_FORMAT_ROW
     \<and> unat (length_kds (example_row_chunk\<lparr>usage := 200\<rparr>))
         < tuple_consume (example_row_chunk\<lparr>usage := 200\<rparr>) (tts_tuple example_slot)"
    by (simp add: example_row_chunk_fields example_slot_def example_tuple_def tuple_consume_def
        example_body_upd LONGALIGN_eq offsetof_htup_def sizeof_uint_def)
  show ?thesis
    using full tight
      insert_tuple_no_room [of "example_row_chunk\<lparr>nrooms := 0\<rparr>" example_slot]
      insert_tuple_no_room [of "example_row_chunk\<lparr>usage := 200\<rparr>" example_slot]
    by blast
qed

text \<open>
  Claim C4.  For a row-format chunk and a page whose worst-case estimate
  \<open>max_consume\<close> (the aligned header, one index entry for every item already stored
  and every line of the page, the item overhead of every line, one block size, and the
  usage so far) exceeds the chunk length, \<^verbatim>\<open>pgstrom_data_store_insert_block\<close>
  returns \<open>-1\<close> and the chunk it leaves is the chunk it was given.
\<close>

theorem insert_block_precheck:
  assumes "format kds = KDS_FORMAT_ROW"
    and "unat (length_kds kds) < max_consume kds (length (page_lines page))"
  shows "pgstrom_data_store_insert_block kds page blknum snapshot = Inr (- 1, kds)"
  using assms by (simp add: pgstrom_data_store_insert_block_def Let_def)

theorem insert_block_precheck_witness:
  "format example_row_chunk = KDS_FORMAT_ROW
   \<and> unat (length_kds example_row_chunk) < max_consume example_row_chunk (length (page_lines example_page))
   \<and> pgstrom_data_store_insert_block example_row_chunk example_page 7 example_snapshot
       = Inr (- 1, example_row_chunk)"
proof -
  have fmt: "format example_row_chunk = KDS_FORMAT_ROW"
    by (simp add: example_row_chunk_fields)
  have big: "unat (length_kds example_row_chunk) < max_consume example_row_chunk (length (page_lines example_page))"
    by (simp add: max_consume_def example_row_chunk_fields STROMALIGN_eq offsetof_colmeta_def
        sizeof_uint_def offsetof_htup_def BLCKSZ_def example_page_def)
  show ?thesis
    using fmt big insert_block_precheck [OF fmt big, of 7 example_snapshot] by simp
qed

section \<open>The mapping of a file-backed chunk\<close>

text \<open>
  Claim C6 at a concrete call.  For a one-column row type, a requested length of 4096
  and \<^verbatim>\<open>file_mapped = true\<close>, the file is truncated to 4144 bytes and 4144 is the
  length recorded both in \<^verbatim>\<open>pds->kds_length\<close> and in the chunk header, but the
  length handed to \<^verbatim>\<open>mmap\<close> is whatever the unassigned local
  \<^verbatim>\<open>kds_length\<close> holds, here 4096.
\<close>

theorem create_data_store_row_maps_unassigned_length:
  "map_sum id (\<lambda>(pds, calls). (kds_length pds, unat (length_kds (pds_kds pds)), calls))
     (pgstrom_create_data_store_row example_fs_env one_nullable_column 4096 True)
   = Inr (4144, 4144,
          [OpenTransientFile ''pgsql_tmp/strom.1'' [''O_RDWR'', ''O_CREAT'', ''O_TRUNC'', ''PG_BINARY''] 384,
           Ftruncate 3 4144,
           Mmap 4096 [''PROT_READ'', ''PROT_WRITE''] [''MAP_SHARED'', ''MAP_POPULATE''] 3 0,
           CloseTransientFile 3])"
  by (simp add: pgstrom_create_data_store_row_def example_fs_env_def Let_def STROMALIGN_eq
      offsetof_colmeta_def natts_def one_nullable_column_def init_kern_data_store_def raw_chunk_def)

section \<open>The parameter buffer of two constants\<close>

lemma take_le_bytes: "k \<le> n \<Longrightarrow> take k (le_bytes n x) = le_bytes k x"
proof (induction n arbitrary: k x)
  case 0
  then show ?case by simp
next
  case (Suc n)
  then show ?case by (cases k) simp_all
qed

lemma unat_ucast_32_64: "unat (ucast (x :: 32 word) :: 64 word) = unat x"
proof -
  have "unat x < 2 ^ 32" using unsigned_less [of x] by simp
  then have "unat x < 2 ^ 64" by simp
  then have "take_bit 64 (unat x) = unat x" by (simp only: take_bit_nat_eq_self)
  then show ?thesis by (simp add: unsigned_ucast_eq)
qed

lemma w4: "set_poffset (replicate 8 0 @ le_bytes 4 0 @ replicate 4 0) (Suc 0) 16
     = replicate 8 0 @ le_bytes 4 0 @ le_bytes 4 16"
  by (simp add: write_bytes_def set_poffset_def write_u32_def offsetof_poffset_def)

lemma w5: "datum_object_bytes env (ucast (x :: 32 word)) 4 = le_bytes 4 (unat x)"
  by (simp add: datum_object_bytes_def take_le_bytes unat_ucast_32_64)

lemma w6: "length str = 20 \<Longrightarrow> stromalign_pad env str = str @ map (padding env) [0..<12]"
  by (simp add: stromalign_pad_def STROMALIGN_eq del: upt_rec_numeral)


lemma w2: "set_poffset (replicate 16 0) 0 0 = replicate 8 0 @ le_bytes 4 0 @ replicate 4 0"
  by (simp add: write_bytes_def set_poffset_def write_u32_def offsetof_poffset_def)

lemma w3: "stromalign_pad env (replicate 8 0 @ le_bytes 4 0 @ replicate 4 0) = replicate 8 0 @ le_bytes 4 0 @ replicate 4 0"
  by (simp add: stromalign_pad_def STROMALIGN_eq)

lemma b1: "kparam_node env (pi, replicate 16 0, 0) (Const (c0\<lparr>constisnull := True\<rparr>))
   = Inr (pi, replicate 8 0 @ le_bytes 4 0 @ replicate 4 0, Suc 0)"
  by (simp add: w2 w3)

lemma b2: "kparam_node env (pi, replicate 8 0 @ le_bytes 4 0 @ replicate 4 0, Suc 0)
     (Const \<lparr>constisnull = False, constlen = 4, constvalue = ucast (x :: 32 word)\<rparr>)
   = Inr (pi, replicate 8 0 @ le_bytes 4 0 @ le_bytes 4 16 @ le_bytes 4 (unat x) @ map (padding env) [0..<12], 2)"
proof -
  have "stromalign_pad env ((replicate 8 0 @ le_bytes 4 0 @ le_bytes 4 16) @ le_bytes 4 (unat x))
        = ((replicate 8 0 @ le_bytes 4 0 @ le_bytes 4 16) @ le_bytes 4 (unat x)) @ map (padding env) [0..<12]"
    by (rule w6) simp
  then show ?thesis
    by (simp add: w4 w5 Let_def del: upt_rec_numeral)
qed

lemma two_constants_buffer:
  "pgstrom_create_kern_parambuf env
     [Const (c0\<lparr>constisnull := True\<rparr>),
      Const \<lparr>constisnull = False, constlen = 4, constvalue = ucast (x :: 32 word)\<rparr>] econtext
   = Inr (le_bytes 4 32 @ le_bytes 4 2 @ le_bytes 4 0 @ le_bytes 4 16 @ le_bytes 4 (unat x)
          @ map (padding env) [0..<12])"
proof -
  have "STROMALIGN (offsetof_poffset 2) = 16"
    by (simp add: offsetof_poffset_def STROMALIGN_eq)
  then have run: "kparam_nodes env (ecxt_param_list_info econtext, replicate (STROMALIGN (offsetof_poffset 2)) 0, 0)
      [Const (c0\<lparr>constisnull := True\<rparr>),
       Const \<lparr>constisnull = False, constlen = 4, constvalue = ucast x\<rparr>]
     = Inr (ecxt_param_list_info econtext,
            replicate 8 0 @ le_bytes 4 0 @ le_bytes 4 16 @ le_bytes 4 (unat x) @ map (padding env) [0..<12], 2)"
    by (simp add: b1 b2 del: upt_rec_numeral kparam_node.simps)
  have fin: "write_u32 (write_u32 (replicate 8 0 @ rest) 0 a) 4 b = le_bytes 4 (unat a) @ le_bytes 4 (unat b) @ rest" for rest a b
    by (simp add: write_u32_def write_bytes_def)
  have len: "length [Const (c0\<lparr>constisnull := True\<rparr>),
      Const \<lparr>constisnull = False, constlen = 4, constvalue = ucast x\<rparr>] = 2"
    by simp
  have al: "STROMALIGN (length (replicate 8 (0::byte) @ le_bytes 4 0 @ le_bytes 4 16 @ le_bytes 4 (unat x)
      @ map (padding env) [0..<12])) = length (replicate 8 (0::byte) @ le_bytes 4 0 @ le_bytes 4 16
      @ le_bytes 4 (unat x) @ map (padding env) [0..<12])"
    by (simp add: STROMALIGN_eq)
  show ?thesis
    unfolding pgstrom_create_kern_parambuf_def Let_def len run
    using al by (simp add: fin del: upt_rec_numeral)
qed


text \<open>
  Claim C7.  For a list of two constants, the first null and the second a non-null
  four-byte by-value integer \<open>x\<close> (its \<^verbatim>\<open>Datum\<close> is \<open>x\<close> zero-extended),
  \<^verbatim>\<open>pgstrom_create_kern_parambuf\<close> returns a buffer whose \<^verbatim>\<open>nparams\<close> is 2,
  whose first offset is 0 and whose second offset is not 0; the four bytes at the
  second offset are the bytes of \<open>x\<close>; and the recorded length is the length of the
  buffer, which is the position after those four bytes rounded up by
  \<^verbatim>\<open>STROMALIGN\<close>.
\<close>

theorem parambuf_null_and_int4:
  "\<exists>kpbuf. pgstrom_create_kern_parambuf env
       [Const (c0\<lparr>constisnull := True\<rparr>),
        Const \<lparr>constisnull = False, constlen = 4, constvalue = ucast (x :: 32 word)\<rparr>] econtext
       = Inr kpbuf
     \<and> kpbuf_nparams kpbuf = 2
     \<and> kpbuf_poffset kpbuf 0 = 0
     \<and> kpbuf_poffset kpbuf 1 \<noteq> 0
     \<and> read_bytes kpbuf (unat (kpbuf_poffset kpbuf 1)) 4 = le_bytes 4 (unat x)
     \<and> unat (kpbuf_length kpbuf) = length kpbuf
     \<and> length kpbuf = STROMALIGN (unat (kpbuf_poffset kpbuf 1) + 4)"
proof -
  define kpbuf where "kpbuf = le_bytes 4 32 @ le_bytes 4 2 @ le_bytes 4 0 @ le_bytes 4 16
      @ le_bytes 4 (unat x) @ map (padding env) [0..<12]"
  have n: "kpbuf_nparams kpbuf = 2"
    by (simp add: kpbuf_def kpbuf_nparams_def read_u32_def read_bytes_def le_nat_le_bytes)
  have p0: "kpbuf_poffset kpbuf 0 = 0"
    by (simp add: kpbuf_def kpbuf_poffset_def offsetof_poffset_def read_u32_def read_bytes_def
        le_nat_le_bytes)
  have p1: "kpbuf_poffset kpbuf 1 = 16"
    by (simp add: kpbuf_def kpbuf_poffset_def offsetof_poffset_def read_u32_def read_bytes_def
        le_nat_le_bytes)
  have d: "read_bytes kpbuf 16 4 = le_bytes 4 (unat x)"
    by (simp add: kpbuf_def read_bytes_def)
  have l: "kpbuf_length kpbuf = 32"
    by (simp add: kpbuf_def kpbuf_length_def read_u32_def read_bytes_def le_nat_le_bytes)
  have len: "length kpbuf = 32"
    by (simp add: kpbuf_def)
  have al: "STROMALIGN (16 + 4) = 32"
    by (simp add: STROMALIGN_eq)
  show ?thesis
    using two_constants_buffer [of env c0 x econtext] n p0 p1 d l len al
    unfolding kpbuf_def [symmetric] by simp
qed

section \<open>Unresolved parameters\<close>

lemma STROMALIGN_ge: "n \<le> STROMALIGN n"
proof -
  have "n + 15 = (n + 15) div 16 * 16 + (n + 15) mod 16" by simp
  moreover have "(n + 15) mod 16 \<le> 15" by (simp add: Suc_leI)
  ultimately show ?thesis unfolding STROMALIGN_eq by linarith
qed

lemma read_bytes_append_left:
  "a + n \<le> length xs \<Longrightarrow> read_bytes (xs @ ys) a n = read_bytes xs a n"
  by (simp add: read_bytes_def)

lemma slot_frame_refl: "slot_frame k str str"
  by (simp add: slot_frame_def)

lemma slot_frame_set:
  "offsetof_poffset k + 4 \<le> length str \<Longrightarrow> slot_frame k str (set_poffset str k w)"
  unfolding slot_frame_def set_poffset_def write_u32_def
  by (auto simp: length_write_bytes intro!: read_write_other)

lemma slot_frame_append: "slot_frame k str X \<Longrightarrow> slot_frame k str (X @ bs)"
  unfolding slot_frame_def by (auto simp: read_bytes_append_left)

lemma slot_frame_pad: "slot_frame k str X \<Longrightarrow> slot_frame k str (stromalign_pad env X)"
  unfolding stromalign_pad_def by (simp add: slot_frame_append)

lemma unresolved_step:
  "param_unresolved param_info param \<Longrightarrow>
   kparam_node env (param_info, str, index) (Param param)
     = Inr (param_info, stromalign_pad env str, index + 1)"
  by (cases param_info) (auto simp: param_unresolved_def)

lemma numParams_fetch_param: "numParams (fetch_param pinfo param) = numParams pinfo"
  by (simp add: fetch_param_def numParams_def Let_def split: option.splits)

lemma param_unresolved_cong:
  "numParams pinfo' = numParams pinfo \<Longrightarrow>
   param_unresolved (Some pinfo') p = param_unresolved (Some pinfo) p"
  by (simp add: param_unresolved_def)

lemma kparam_bound_frame:
  assumes "kparam_bound env pinfo str k param = Inr (pi', str', k')"
    and "offsetof_poffset k + 4 \<le> length str"
  shows "k' = k + 1" and "slot_frame k str str'"
    and "param_unresolved pi' p = param_unresolved (Some pinfo) p"
proof -
  define pinfo' where "pinfo' = fetch_param pinfo param"
  have shape: "pi' = Some pinfo' \<and> k' = k + 1
      \<and> (str' = set_poffset str k 0 \<or> str' = stromalign_pad env (set_poffset str k 0)
          \<or> (\<exists>bs. str' = stromalign_pad env (str @ bs)))"
    using assms(1) unfolding kparam_bound_def Let_def pinfo'_def [symmetric]
    by (simp split: if_splits) blast+
  show "k' = k + 1" using shape by simp
  have s0: "slot_frame k str (set_poffset str k 0)"
    by (rule slot_frame_set [OF assms(2)])
  have s1: "slot_frame k str (stromalign_pad env (set_poffset str k 0))"
    by (rule slot_frame_pad [OF s0])
  have s2: "slot_frame k str (stromalign_pad env (str @ bs))" for bs
    by (rule slot_frame_pad [OF slot_frame_append [OF slot_frame_refl]])
  show "slot_frame k str str'" using shape s0 s1 s2 by blast
  show "param_unresolved pi' p = param_unresolved (Some pinfo) p"
    using shape param_unresolved_cong [OF numParams_fetch_param]
    by (simp add: pinfo'_def)
qed

lemma kparam_node_frame:
  assumes "kparam_node env (pi, str, k) node = Inr (pi', str', k')"
    and "offsetof_poffset k + 4 \<le> length str"
  shows "k' = k + 1" and "slot_frame k str str'"
    and "param_unresolved pi' p = param_unresolved pi p"
proof -
  have "k' = k + 1 \<and> slot_frame k str str' \<and> param_unresolved pi' p = param_unresolved pi p"
  proof (cases node)
    case (Const con)
    have shape: "pi' = pi \<and> k' = k + 1
        \<and> (\<exists>w. str' = stromalign_pad env (set_poffset str k w)
               \<or> (\<exists>bs. str' = stromalign_pad env (set_poffset str k w @ bs)))"
      using assms(1) unfolding Const kparam_node.simps Let_def
      by (simp split: if_splits) blast+
    have s0: "slot_frame k str (stromalign_pad env (set_poffset str k w))" for w
      by (rule slot_frame_pad [OF slot_frame_set [OF assms(2)]])
    have s1: "slot_frame k str (stromalign_pad env (set_poffset str k w @ bs))" for w bs
      by (rule slot_frame_pad [OF slot_frame_append [OF slot_frame_set [OF assms(2)]]])
    show ?thesis using shape s0 s1 by auto
  next
    case (Param param)
    show ?thesis
    proof (cases "param_unresolved pi param")
      case True
      then show ?thesis
        using assms Param unresolved_step [OF True, of env str k]
        by (auto intro!: slot_frame_pad slot_frame_refl)
    next
      case False
      then obtain pinfo where pi: "pi = Some pinfo"
        and rng: "paramid param > 0 \<and> paramid param \<le> numParams pinfo"
        by (cases pi) (auto simp: param_unresolved_def)
      then have "kparam_bound env pinfo str k param = Inr (pi', str', k')"
        using assms Param by simp
      from kparam_bound_frame [OF this assms(2)] show ?thesis
        by (simp add: pi)
    qed
  next
    case Other_node
    then show ?thesis using assms by simp
  qed
  then show "k' = k + 1" and "slot_frame k str str'"
    and "param_unresolved pi' p = param_unresolved pi p"
    by simp_all
qed


lemma slot_frame_read:
  assumes "slot_frame k str str'" "a + n \<le> length str"
    "a + n \<le> offsetof_poffset k \<or> offsetof_poffset k + 4 \<le> a"
  shows "read_bytes str' a n = read_bytes str a n"
  using assms unfolding slot_frame_def by blast

lemma slot_frame_length: "slot_frame k str str' \<Longrightarrow> length str \<le> length str'"
  unfolding slot_frame_def by blast

lemma run_keeps_done_slots:
  assumes "kparam_nodes env (pi, str, k) nodes = Inr (pi', str', k')"
    and "offsetof_poffset (k + length nodes) \<le> length str"
    and "j < k"
  shows "read_bytes str' (offsetof_poffset j) 4 = read_bytes str (offsetof_poffset j) 4"
  using assms
proof (induction nodes arbitrary: pi str k)
  case Nil
  then show ?case by simp
next
  case (Cons node rest)
  obtain pi1 str1 k1 where step: "kparam_node env (pi, str, k) node = Inr (pi1, str1, k1)"
    and run: "kparam_nodes env (pi1, str1, k1) rest = Inr (pi', str', k')"
    using Cons.prems(1) by (auto split: sum.splits)
  have rng: "offsetof_poffset k + 4 \<le> length str"
    using Cons.prems(2) by (simp add: offsetof_poffset_def)
  note fr = kparam_node_frame [OF step rng]
  have k1: "k1 = k + 1" by (rule fr(1))
  have len: "length str \<le> length str1" by (rule slot_frame_length [OF fr(2)])
  have same: "read_bytes str1 (offsetof_poffset j) 4 = read_bytes str (offsetof_poffset j) 4"
    by (rule slot_frame_read [OF fr(2)]) (use Cons.prems(3) rng in \<open>simp_all add: offsetof_poffset_def\<close>)
  have "read_bytes str' (offsetof_poffset j) 4 = read_bytes str1 (offsetof_poffset j) 4"
    by (rule Cons.IH [OF run]) (use Cons.prems(2,3) len k1 in simp_all)
  then show ?case using same by simp
qed

lemma run_length:
  assumes "kparam_nodes env (pi, str, k) nodes = Inr (pi', str', k')"
    and "offsetof_poffset (k + length nodes) \<le> length str"
  shows "length str \<le> length str'"
  using assms
proof (induction nodes arbitrary: pi str k)
  case Nil
  then show ?case by simp
next
  case (Cons node rest)
  obtain pi1 str1 k1 where step: "kparam_node env (pi, str, k) node = Inr (pi1, str1, k1)"
    and run: "kparam_nodes env (pi1, str1, k1) rest = Inr (pi', str', k')"
    using Cons.prems(1) by (auto split: sum.splits)
  have rng: "offsetof_poffset k + 4 \<le> length str"
    using Cons.prems(2) by (simp add: offsetof_poffset_def)
  note fr = kparam_node_frame [OF step rng]
  have len: "length str \<le> length str1" by (rule slot_frame_length [OF fr(2)])
  have "length str1 \<le> length str'"
    by (rule Cons.IH [OF run]) (use Cons.prems(2) len fr(1) in simp)
  then show ?case using len by simp
qed

lemma run_unresolved_slot:
  assumes "kparam_nodes env (pi, str, k) nodes = Inr (pi', str', k')"
    and "i < length nodes" and "nodes ! i = Param param"
    and "param_unresolved pi param"
    and "offsetof_poffset (k + length nodes) \<le> length str"
  shows "read_bytes str' (offsetof_poffset (k + i)) 4 = read_bytes str (offsetof_poffset (k + i)) 4"
  using assms
proof (induction nodes arbitrary: pi str k i)
  case Nil
  then show ?case by simp
next
  case (Cons node rest)
  obtain pi1 str1 k1 where step: "kparam_node env (pi, str, k) node = Inr (pi1, str1, k1)"
    and run: "kparam_nodes env (pi1, str1, k1) rest = Inr (pi', str', k')"
    using Cons.prems(1) by (auto split: sum.splits)
  have rng: "offsetof_poffset k + 4 \<le> length str"
    using Cons.prems(5) by (simp add: offsetof_poffset_def)
  note fr = kparam_node_frame [OF step rng]
  have k1: "k1 = k + 1" by (rule fr(1))
  have len: "length str \<le> length str1" by (rule slot_frame_length [OF fr(2)])
  have rest_rng: "offsetof_poffset (k1 + length rest) \<le> length str1"
    using Cons.prems(5) len k1 by simp
  show ?case
  proof (cases i)
    case 0
    then have node: "node = Param param" using Cons.prems(3) by simp
    have "str1 = stromalign_pad env str"
      using step unresolved_step [OF Cons.prems(4), of env str k] node by simp
    then have "read_bytes str1 (offsetof_poffset k) 4 = read_bytes str (offsetof_poffset k) 4"
      using rng slot_frame_read [OF slot_frame_pad [OF slot_frame_refl], of "offsetof_poffset k" 4 str "Suc k" env]
      by (simp add: offsetof_poffset_def)
    moreover have "read_bytes str' (offsetof_poffset k) 4 = read_bytes str1 (offsetof_poffset k) 4"
      by (rule run_keeps_done_slots [OF run rest_rng]) (simp add: k1)
    ultimately show ?thesis using 0 by simp
  next
    case (Suc i')
    have unres: "param_unresolved pi1 param"
      using fr(3) [of param] Cons.prems(4) by simp
    have i': "i' < length rest" "rest ! i' = Param param"
      using Cons.prems(2,3) Suc by simp_all
    have "read_bytes str' (offsetof_poffset (k1 + i')) 4 = read_bytes str1 (offsetof_poffset (k1 + i')) 4"
      by (rule Cons.IH [OF run i' unres rest_rng])
    moreover have "read_bytes str1 (offsetof_poffset (k + i)) 4 = read_bytes str (offsetof_poffset (k + i)) 4"
      by (rule slot_frame_read [OF fr(2)])
        (use Cons.prems(2,5) Suc in \<open>simp_all add: offsetof_poffset_def\<close>)
    ultimately show ?thesis using k1 Suc by simp
  qed
qed

lemma STROMALIGN_idem: "STROMALIGN (STROMALIGN n) = STROMALIGN n"
  by (simp add: STROMALIGN_eq)

lemma length_stromalign_pad: "length (stromalign_pad env str) = STROMALIGN (length str)"
  using STROMALIGN_ge [of "length str"] by (simp add: stromalign_pad_def)

lemma quiet_run:
  "list_all (quiet_node pi) nodes \<Longrightarrow> STROMALIGN (length str) = length str \<Longrightarrow>
   \<exists>str' k'. kparam_nodes env (pi, str, k) nodes = Inr (pi, str', k')
             \<and> STROMALIGN (length str') = length str'"
proof (induction nodes arbitrary: str k)
  case Nil
  then show ?case by simp
next
  case (Cons node rest)
  have "\<exists>X. kparam_node env (pi, str, k) node = Inr (pi, stromalign_pad env X, k + 1)"
  proof (cases node)
    case (Const con)
    then show ?thesis by (auto simp: Let_def)
  next
    case (Param param)
    then show ?thesis using Cons.prems(1) unresolved_step [of pi param env str k] by auto
  next
    case Other_node
    then show ?thesis using Cons.prems(1) by simp
  qed
  then obtain X where step: "kparam_node env (pi, str, k) node = Inr (pi, stromalign_pad env X, k + 1)"
    by blast
  have "STROMALIGN (length (stromalign_pad env X)) = length (stromalign_pad env X)"
    by (simp add: length_stromalign_pad STROMALIGN_idem)
  moreover have "list_all (quiet_node pi) rest" using Cons.prems(1) by simp
  ultimately obtain str' k' where
    "kparam_nodes env (pi, stromalign_pad env X, k + 1) rest = Inr (pi, str', k')"
    "STROMALIGN (length str') = length str'"
    using Cons.IH [of "stromalign_pad env X" "k + 1"] by blast
  then show ?case using step by simp
qed

lemma read_u32_zeros: "a + 4 \<le> n \<Longrightarrow> read_u32 (replicate n 0) a = 0"
proof -
  assume "a + 4 \<le> n"
  then have "read_bytes (replicate n 0) a 4 = replicate 4 0"
    by (simp add: read_bytes_def min_def)
  also have "replicate 4 0 = [0, 0, 0, 0 :: byte]"
    by (simp add: eval_nat_numeral)
  finally show ?thesis by (simp add: read_u32_def)
qed

text \<open>
  Claim C10.  Let the node at position \<open>i\<close> of the list be a bound parameter that is
  not resolved: there is no parameter list info, or its id is outside
  \<open>1 .. numParams\<close>.  Then the loop body for that node raises nothing and stores
  nothing: it only applies the alignment step and advances \<^verbatim>\<open>index\<close>.  In every
  buffer the function returns, the offset slot \<open>i\<close> is 0, the mark of a null
  parameter.  And when every node of the list is a constant or such a parameter, the
  function does return a buffer.
\<close>

theorem unresolved_param_left_null:
  assumes "i < length used_params"
    and "used_params ! i = Param param"
    and "param_unresolved (ecxt_param_list_info econtext) param"
  shows "(\<forall>str index. kparam_node env (ecxt_param_list_info econtext, str, index) (Param param)
            = Inr (ecxt_param_list_info econtext, stromalign_pad env str, index + 1))
       \<and> (\<forall>kpbuf. pgstrom_create_kern_parambuf env used_params econtext = Inr kpbuf
            \<longrightarrow> kpbuf_poffset kpbuf i = 0)
       \<and> (list_all (quiet_node (ecxt_param_list_info econtext)) used_params
            \<longrightarrow> (\<exists>kpbuf. pgstrom_create_kern_parambuf env used_params econtext = Inr kpbuf))"
proof (intro conjI allI impI)
  fix str index
  show "kparam_node env (ecxt_param_list_info econtext, str, index) (Param param)
            = Inr (ecxt_param_list_info econtext, stromalign_pad env str, index + 1)"
    by (rule unresolved_step [OF assms(3)])
next
  fix kpbuf
  assume ok: "pgstrom_create_kern_parambuf env used_params econtext = Inr kpbuf"
  define off where "off = STROMALIGN (offsetof_poffset (length used_params))"
  obtain pi' str' k' where
    run: "kparam_nodes env (ecxt_param_list_info econtext, replicate off 0, 0) used_params = Inr (pi', str', k')"
    and buf: "kpbuf = write_u32 (write_u32 str' 0 (of_nat (length str'))) 4 (of_nat (length used_params))"
    using ok unfolding pgstrom_create_kern_parambuf_def Let_def off_def [symmetric]
    by (auto split: sum.splits if_splits)
  have rng: "offsetof_poffset (0 + length used_params) \<le> length (replicate off 0)"
    using STROMALIGN_ge [of "offsetof_poffset (length used_params)"] by (simp add: off_def)
  have slot: "offsetof_poffset i + 4 \<le> off"
    using rng assms(1) by (simp add: offsetof_poffset_def)
  have "read_bytes str' (offsetof_poffset (0 + i)) 4 = read_bytes (replicate off 0) (offsetof_poffset (0 + i)) 4"
    by (rule run_unresolved_slot [OF run assms(1,2,3) rng])
  then have z: "read_u32 str' (offsetof_poffset i) = 0"
    using read_u32_zeros [OF slot] by (simp add: read_u32_def)
  have big: "off \<le> length str'"
    using run_length [OF run rng] by simp
  have "read_bytes kpbuf (offsetof_poffset i) 4
        = read_bytes (write_u32 str' 0 (of_nat (length str'))) (offsetof_poffset i) 4"
    unfolding buf write_u32_def
    by (rule read_write_other)
      (use big slot in \<open>simp_all add: length_write_bytes offsetof_poffset_def\<close>)
  also have "\<dots> = read_bytes str' (offsetof_poffset i) 4"
    unfolding write_u32_def
    by (rule read_write_other) (use big slot in \<open>simp_all add: offsetof_poffset_def\<close>)
  finally show "kpbuf_poffset kpbuf i = 0"
    using z by (simp add: kpbuf_poffset_def read_u32_def)
next
  assume q: "list_all (quiet_node (ecxt_param_list_info econtext)) used_params"
  define off where "off = STROMALIGN (offsetof_poffset (length used_params))"
  have "STROMALIGN (length (replicate off (0::byte))) = length (replicate off (0::byte))"
    by (simp add: off_def STROMALIGN_idem)
  from quiet_run [OF q this, of env 0] obtain str' k' where
    "kparam_nodes env (ecxt_param_list_info econtext, replicate off 0, 0) used_params
       = Inr (ecxt_param_list_info econtext, str', k')"
    "STROMALIGN (length str') = length str'"
    by blast
  then show "\<exists>kpbuf. pgstrom_create_kern_parambuf env used_params econtext = Inr kpbuf"
    unfolding pgstrom_create_kern_parambuf_def Let_def off_def [symmetric] by simp
qed

theorem unresolved_param_left_null_witness:
  "0 < length [Param example_param]
   \<and> [Param example_param] ! 0 = Param example_param
   \<and> param_unresolved (ecxt_param_list_info no_param_list) example_param
   \<and> param_unresolved (ecxt_param_list_info empty_param_list) example_param
   \<and> (\<exists>kpbuf. pgstrom_create_kern_parambuf example_host_env [Param example_param] no_param_list
                 = Inr kpbuf \<and> kpbuf_poffset kpbuf 0 = 0)
   \<and> (\<exists>kpbuf. pgstrom_create_kern_parambuf example_host_env [Param example_param] empty_param_list
                 = Inr kpbuf \<and> kpbuf_poffset kpbuf 0 = 0)"
proof -
  have i: "0 < length [Param example_param]" and n: "[Param example_param] ! 0 = Param example_param"
    by simp_all
  have u1: "param_unresolved (ecxt_param_list_info no_param_list) example_param"
    by (simp add: param_unresolved_def no_param_list_def)
  have u2: "param_unresolved (ecxt_param_list_info empty_param_list) example_param"
    by (simp add: param_unresolved_def empty_param_list_def numParams_def example_param_def)
  have q1: "list_all (quiet_node (ecxt_param_list_info no_param_list)) [Param example_param]"
    using u1 by simp
  have q2: "list_all (quiet_node (ecxt_param_list_info empty_param_list)) [Param example_param]"
    using u2 by simp
  show ?thesis
    using i n u1 u2 q1 q2
      unresolved_param_left_null [OF i n u1, of example_host_env]
      unresolved_param_left_null [OF i n u2, of example_host_env]
    by blast
qed

section \<open>The index pairs of the bitonic network\<close>

lemma reversed_partner_int:
  fixes x :: int
  shows "(x AND NOT (mask k)) OR (NOT x AND mask k) = (x div 2 ^ k) * 2 ^ k + (2 ^ k - 1 - x mod 2 ^ k)"
proof -
  have b: "NOT x AND mask k = take_bit k (NOT x)"
    by (simp add: take_bit_eq_mask)
  have "(x div 2 ^ k) * 2 ^ k OR take_bit k (NOT x) = (x div 2 ^ k) * 2 ^ k + take_bit k (NOT x)"
    by (rule disjunctive_add [symmetric])
      (auto simp: bit_push_bit_iff bit_take_bit_iff simp flip: push_bit_eq_mult)
  also have "\<dots> = (x div 2 ^ k) * 2 ^ k + (2 ^ k - 1 - x mod 2 ^ k)"
    unfolding take_bit_not_eq_mask_diff
    by (simp add: mask_eq_exp_minus_1 take_bit_eq_mod)
  finally show ?thesis using b by (simp add: and_not_mask_int)
qed

lemma bitonic_idx1_reversing:
  "bitonic_idx1 (2 ^ k) True idx0 = (idx0 div 2 ^ k) * 2 ^ k + (2 ^ k - 1 - idx0 mod 2 ^ k)"
proof -
  have m: "int (2 ^ k) - 1 = mask k" by (simp add: mask_eq_exp_minus_1)
  have lt: "idx0 mod 2 ^ k < 2 ^ k" by simp
  have "int idx0 div 2 ^ k * 2 ^ k + (2 ^ k - 1 - int idx0 mod 2 ^ k)
        = int ((idx0 div 2 ^ k) * 2 ^ k + (2 ^ k - 1 - idx0 mod 2 ^ k))"
  proof -
    have "int (2 ^ k - 1 - idx0 mod 2 ^ k) = 2 ^ k - 1 - int idx0 mod 2 ^ k"
      using lt by (simp add: of_nat_diff zmod_int Suc_le_eq)
    then show ?thesis by (simp add: zdiv_int zmod_int)
  qed
  then show ?thesis
    unfolding bitonic_idx1_def Let_def m reversed_partner_int by (simp only: if_True nat_int)
qed

text \<open>The pair of a worker, by quotient and remainder of its id by half the unit size.\<close>

lemma bitonic_pair:
  assumes "0 < k"
  defines "h \<equiv> (2::nat) ^ (k - 1)"
  shows "bitonic_idx0 (2 ^ k) g = (g div h) * 2 ^ k + g mod h"
    and "bitonic_idx1 (2 ^ k) reversing (bitonic_idx0 (2 ^ k) g)
         = (g div h) * 2 ^ k + (if reversing then 2 ^ k - 1 - g mod h else h + g mod h)"
proof -
  obtain j where k: "k = Suc j" using assms(1) by (cases k) auto
  have h: "h = 2 ^ j" "(2::nat) ^ k div 2 = h" "(2::nat) ^ k = 2 * h"
    by (simp_all add: h_def k)
  have "g mod h < h" by (simp add: h(1))
  then have lt: "g mod h < 2 ^ k" unfolding h(3) by linarith
  show i0: "bitonic_idx0 (2 ^ k) g = (g div h) * 2 ^ k + g mod h"
    unfolding bitonic_idx0_def Let_def h(2) by simp
  have dm: "((g div h) * 2 ^ k + g mod h) div 2 ^ k = g div h"
    "((g div h) * 2 ^ k + g mod h) mod 2 ^ k = g mod h"
    using lt by simp_all
  show "bitonic_idx1 (2 ^ k) reversing (bitonic_idx0 (2 ^ k) g)
         = (g div h) * 2 ^ k + (if reversing then 2 ^ k - 1 - g mod h else h + g mod h)"
  proof (cases reversing)
    case True
    then show ?thesis
      unfolding i0 by (simp only: bitonic_idx1_reversing dm if_True)
  next
    case False
    then show ?thesis
      unfolding i0 bitonic_idx1_def Let_def h(2) by simp
  qed
qed

lemma quot_rem_unique:
  fixes a b r s u :: nat
  assumes "a * u + r = b * u + s" "r < u" "s < u"
  shows "a = b \<and> r = s"
proof -
  have "(a * u + r) div u = a" "(b * u + s) div u = b" using assms(2,3) by simp_all
  then have "a = b" using assms(1) by simp
  then show ?thesis using assms(1) by simp
qed

text \<open>
  Claim C8.  For a unit size that is a power of two and at least 2, either value of
  the reversing flag, and two workers with different global ids, the index pairs that
  the formulas of \<^verbatim>\<open>gpusort_bitonic_step\<close> give the two workers have no element
  in common.
\<close>

theorem step_index_pairs_disjoint:
  assumes "unitsz = 2 ^ k" and "0 < k" and "g \<noteq> g'"
  shows "{bitonic_idx0 unitsz g, bitonic_idx1 unitsz reversing (bitonic_idx0 unitsz g)}
         \<inter> {bitonic_idx0 unitsz g', bitonic_idx1 unitsz reversing (bitonic_idx0 unitsz g')} = {}"
proof -
  define h where "h = (2::nat) ^ (k - 1)"
  define u where "u = (2::nat) ^ k"
  obtain j where k: "k = Suc j" using assms(2) by (cases k) auto
  have u: "u = 2 * h" "0 < h" by (simp_all add: u_def h_def k)
  define p where "p x = (if reversing then u - 1 - x else h + x)" for x
  have p_rng: "h \<le> p x \<and> p x < u" if "x < h" for x
    using that u by (auto simp: p_def)
  have p_inj: "x = y" if "p x = p y" "x < h" "y < h" for x y
    using that u by (auto simp: p_def split: if_splits)
  have r: "g mod h < h" "g' mod h < h" using u by simp_all
  define a0 where "a0 = bitonic_idx0 unitsz g"
  define a1 where "a1 = bitonic_idx1 unitsz reversing a0"
  define b0 where "b0 = bitonic_idx0 unitsz g'"
  define b1 where "b1 = bitonic_idx1 unitsz reversing b0"
  have a0: "a0 = (g div h) * u + g mod h" and b0: "b0 = (g' div h) * u + g' mod h"
    unfolding a0_def b0_def assms(1) u_def h_def by (rule bitonic_pair(1) [OF assms(2)])+
  have a1: "a1 = (g div h) * u + p (g mod h)" and b1: "b1 = (g' div h) * u + p (g' mod h)"
    unfolding a1_def b1_def a0_def b0_def assms(1) u_def h_def p_def
    by (rule bitonic_pair(2) [OF assms(2)])+
  have same: "g = g'" if "g div h = g' div h" "g mod h = g' mod h"
    using that by (metis div_mult_mod_eq)
  have lo: "g mod h < u" "g' mod h < u" using r u(1) by linarith+
  have hi: "p (g mod h) < u" "p (g' mod h) < u" using p_rng r by simp_all
  have "a0 \<noteq> b0"
    using quot_rem_unique [OF _ lo] same assms(3) unfolding a0 b0 by blast
  moreover have "a0 \<noteq> b1"
    using quot_rem_unique [OF _ lo(1) hi(2)] p_rng [OF r(2)] r(1) unfolding a0 b1 by force
  moreover have "a1 \<noteq> b0"
    using quot_rem_unique [OF _ hi(1) lo(2)] p_rng [OF r(1)] r(2) unfolding a1 b0 by force
  moreover have "a1 \<noteq> b1"
    using quot_rem_unique [OF _ hi] p_inj [OF _ r] same assms(3) unfolding a1 b1 by blast
  ultimately have "{a0, a1} \<inter> {b0, b1} = {}" by auto
  then show ?thesis unfolding a1_def b1_def a0_def b0_def .
qed

theorem step_index_pairs_disjoint_witness:
  "(4::nat) = 2 ^ 2 \<and> (0::nat) < 2 \<and> (0::nat) \<noteq> 1
   \<and> {bitonic_idx0 4 0, bitonic_idx1 4 True (bitonic_idx0 4 0)}
       \<inter> {bitonic_idx0 4 1, bitonic_idx1 4 True (bitonic_idx0 4 1)} = {}
   \<and> {bitonic_idx0 4 0, bitonic_idx1 4 False (bitonic_idx0 4 0)}
       \<inter> {bitonic_idx0 4 1, bitonic_idx1 4 False (bitonic_idx0 4 1)} = {}"
  using step_index_pairs_disjoint [of 4 2 0 1 True]
    step_index_pairs_disjoint [of 4 2 0 1 False]
  by simp

section \<open>Three items\<close>

lemma fold_skip: "(\<And>x s. x \<in> set xs \<Longrightarrow> f x s = s) \<Longrightarrow> fold f xs s = s"
  by (induction xs arbitrary: s) simp_all

lemma first_round_pair:
  "bitonic_idx0 2 tid = 2 * tid" "bitonic_idx1 2 True (2 * tid) = 2 * tid + 1"
proof -
  show "bitonic_idx0 2 tid = 2 * tid"
    by (simp add: bitonic_idx0_def)
  show "bitonic_idx1 2 True (2 * tid) = 2 * tid + 1"
    using bitonic_idx1_reversing [of 1 "2 * tid"] by simp
qed

lemma three_items_round:
  assumes "0 < local_size"
  shows "fold (local_step keycomp 3 2 True) [0..<local_size] localIdx
         = keycomp_swap keycomp 0 1 localIdx"
proof -
  have skip: "local_step keycomp 3 2 True tid s = s" if "tid \<in> set [1..<local_size]" for tid s
    using that by (simp add: local_step_def first_round_pair)
  have "[0..<local_size] = 0 # [1..<local_size]"
    using assms by (simp add: upt_conv_Cons)
  then have "fold (local_step keycomp 3 2 True) [0..<local_size] localIdx
      = fold (local_step keycomp 3 2 True) [1..<local_size] (local_step keycomp 3 2 True 0 localIdx)"
    by simp
  also have "\<dots> = local_step keycomp 3 2 True 0 localIdx"
    by (rule fold_skip) (rule skip)
  also have "\<dots> = keycomp_swap keycomp 0 1 localIdx"
    using first_round_pair [of 0] by (simp add: local_step_def)
  finally show ?thesis .
qed

lemma three_items_local_blocks:
  assumes "0 < local_size"
  shows "local_blocks keycomp local_size 3 2 localIdx = keycomp_swap keycomp 0 1 localIdx"
proof -
  have u1: "local_units keycomp local_size 3 2 1 s = s" for s
    by (subst local_units.simps) simp
  have u2: "local_units keycomp local_size 3 2 2 s = keycomp_swap keycomp 0 1 s" for s
  proof -
    have "local_units keycomp local_size 3 2 2 s
          = local_units keycomp local_size 3 2 1 (fold (local_step keycomp 3 2 True) [0..<local_size] s)"
      by (subst local_units.simps) simp
    then show ?thesis by (simp only: u1 three_items_round [OF assms])
  qed
  have b4: "local_blocks keycomp local_size 3 4 s = s" for s
    by (subst local_blocks.simps) simp
  have "local_blocks keycomp local_size 3 2 localIdx
        = local_blocks keycomp local_size 3 4 (local_units keycomp local_size 3 2 2 localIdx)"
    by (subst local_blocks.simps) simp
  then show ?thesis by (simp only: u2 b4)
qed

lemma three_items_local_block:
  assumes "2 \<le> local_size"
  shows "gpusort_bitonic_local_block keycomp local_size shm 0 [x, y, z]
         = (if keycomp x y > 0 then [y, x, z] else [x, y, z])"
proof -
  have "0 < local_size" using assms by simp
  note lb = three_items_local_blocks [OF this]
  have len: "length [x, y, z] = 3" by simp
  have pb: "partition_base local_size 0 = 0"
    by (simp add: partition_base_def)
  have ps: "partition_size local_size 0 3 = 3"
    using assms by (simp add: partition_size_def pb)
  have "gpusort_bitonic_local_block keycomp local_size shm 0 [x, y, z]
        = take 0 [x, y, z] @ take 3 (keycomp_swap keycomp 0 1 (take 3 (drop 0 [x, y, z]) @ drop 3 (shm 0)))
          @ drop (0 + 3) [x, y, z]"
    unfolding gpusort_bitonic_local_block_def Let_def len pb ps
    by (simp only: lb)
  also have "\<dots> = (if keycomp x y > 0 then [y, x, z] else [x, y, z])"
    by (simp add: keycomp_swap_def)
  finally show ?thesis .
qed

lemma three_items_grid:
  assumes "2 \<le> (b::nat)"
  shows "((3 + 1) div 2 + b - 1) div b = 1"
proof -
  have "(3 + 1) div 2 + b - 1 = b + 1" by simp
  moreover have "(b + 1) div b = 1" using assms by (intro div_nat_eqI) simp_all
  ultimately show ?thesis by simp
qed

lemma three_items_main:
  assumes "2 \<le> common_block_sz largest"
  shows "gpusort_main keycomp largest shm [x, y, z]
         = (if keycomp x y > 0 then [y, x, z] else [x, y, z])"
proof -
  define b where "b = common_block_sz largest"
  have b2: "2 \<le> b" using assms by (simp add: b_def)
  have len: "length [x, y, z] = 3" by simp
  have nh: "(2::nat) ^ (get_next_log2 (3 + 1) - 1) = 2"
    by (simp add: get_next_log2.simps)
  have grid: "((3 + 1) div 2 + b - 1) div b = 1"
    by (rule three_items_grid [OF b2])
  have loc: "gpusort_bitonic_local keycomp 1 b shm [x, y, z]
             = (if keycomp x y > 0 then [y, x, z] else [x, y, z])"
    using three_items_local_block [OF b2, of keycomp shm x y z]
    by (simp add: gpusort_bitonic_local_def)
  have pass: "main_passes keycomp b shm 2 b r = r" for r
    using b2 by (subst main_passes.simps) simp
  have "gpusort_main keycomp largest shm [x, y, z]
        = main_passes keycomp b shm 2 b (gpusort_bitonic_local keycomp 1 b shm [x, y, z])"
    unfolding gpusort_main_def Let_def b_def [symmetric] len nh grid by (rule refl)
  then show ?thesis by (simp only: loc pass)
qed

lemma log2_1025: "get_next_log2 1025 = 11"
  by (simp add: get_next_log2.simps)

lemma common_block_sz_3:
  "common_block_sz [a, b, c]
   = min (min (min UINT_MAX (2 ^ (get_next_log2 (a + 1) - 1))) (2 ^ (get_next_log2 (b + 1) - 1)))
       (2 ^ (get_next_log2 (c + 1) - 1))"
  by (simp only: common_block_sz_def fold.simps o_apply id_apply)

lemma block_sz_1024: "common_block_sz [1024, 1024, 1024] = 1024"
proof -
  have "(1024::nat) + 1 = 1025" by simp
  then show ?thesis
    unfolding common_block_sz_3 by (simp only: log2_1025) (simp add: UINT_MAX_def)
qed

text \<open>
  Claim C1 at a concrete array.  With a block size of 1024 reported for each of the
  three kernels and the three row positions 2, 1, 0 compared by the order of the
  natural numbers, \<^verbatim>\<open>gpusort_main\<close> leaves the array as 1, 2, 0, whatever the
  shared memory held: the local sort runs its loop over \<^verbatim>\<open>blockSize\<close> only while
  \<^verbatim>\<open>blockSize <= part_size\<close> with the partition size already cut to 3, so the
  third entry is never compared, and no step or merge pass follows because
  \<^verbatim>\<open>nhalf\<close> is 2.
\<close>

theorem three_items_left_unsorted:
  "gpusort_main nat_keycomp [1024, 1024, 1024] shm [2, 1, 0] = [1, 2, 0]
   \<and> \<not> sorted (gpusort_main nat_keycomp [1024, 1024, 1024] shm [2, 1, 0])"
proof -
  have "2 \<le> common_block_sz [1024, 1024, 1024]" by (simp add: block_sz_1024)
  from three_items_main [OF this, of nat_keycomp shm 2 1 0]
  show ?thesis by (simp add: nat_keycomp_def)
qed

section \<open>What the merge kernel writes back\<close>

lemma keycomp_swap_within:
  assumes "idx0 < n" "idx1 < n" "n \<le> length xs"
  shows "mset (take n (keycomp_swap keycomp idx0 idx1 xs)) = mset (take n xs)"
    and "length (keycomp_swap keycomp idx0 idx1 xs) = length xs"
proof -
  let ?ls = "take n xs"
  have "take n (xs[idx0 := xs ! idx1, idx1 := xs ! idx0]) = ?ls[idx0 := ?ls ! idx1, idx1 := ?ls ! idx0]"
    using assms by (simp add: take_update_swap)
  moreover have "mset (?ls[idx0 := ?ls ! idx1, idx1 := ?ls ! idx0]) = mset ?ls"
    by (rule mset_swap) (use assms in simp_all)
  ultimately show "mset (take n (keycomp_swap keycomp idx0 idx1 xs)) = mset (take n xs)"
    by (simp add: keycomp_swap_def Let_def)
  show "length (keycomp_swap keycomp idx0 idx1 xs) = length xs"
    by (simp add: keycomp_swap_def Let_def)
qed

lemma local_step_within:
  assumes "n \<le> length xs"
  shows "mset (take n (local_step keycomp n unitSize False tid xs)) = mset (take n xs)
         \<and> length (local_step keycomp n unitSize False tid xs) = length xs"
proof (cases "bitonic_idx1 unitSize False (bitonic_idx0 unitSize tid) < n")
  case True
  then have "bitonic_idx0 unitSize tid < n"
    by (simp add: bitonic_idx1_def)
  from keycomp_swap_within [OF this True assms] True show ?thesis
    by (simp add: local_step_def Let_def)
next
  case False
  then show ?thesis by (simp add: local_step_def Let_def)
qed

lemma round_within:
  assumes "n \<le> length xs"
  shows "mset (take n (fold (local_step keycomp n unitSize False) tids xs)) = mset (take n xs)
         \<and> length (fold (local_step keycomp n unitSize False) tids xs) = length xs"
  using assms
proof (induction tids arbitrary: xs)
  case Nil
  then show ?case by simp
next
  case (Cons tid tids)
  have s: "mset (take n (local_step keycomp n unitSize False tid xs)) = mset (take n xs)"
    "length (local_step keycomp n unitSize False tid xs) = length xs"
    using local_step_within [OF Cons.prems] by simp_all
  then have "n \<le> length (local_step keycomp n unitSize False tid xs)"
    using Cons.prems by simp
  from Cons.IH [OF this] s show ?case by simp
qed

lemma merge_units_within:
  assumes "n \<le> length xs"
  shows "mset (take n (merge_units keycomp local_size n unitSize xs)) = mset (take n xs)
         \<and> length (merge_units keycomp local_size n unitSize xs) = length xs"
  using assms
proof (induction keycomp local_size n unitSize xs rule: merge_units.induct)
  case (1 keycomp local_size part_size unitSize localIdx)
  show ?case
  proof (cases "unitSize \<ge> 2")
    case True
    let ?next = "fold (local_step keycomp part_size unitSize False) [0..<local_size] localIdx"
    have r: "mset (take part_size ?next) = mset (take part_size localIdx)"
      "length ?next = length localIdx"
      using round_within [OF "1.prems"] by simp_all
    then have "part_size \<le> length ?next" using "1.prems" by simp
    from "1.IH" [OF True this] r True show ?thesis
      by (subst merge_units.simps, subst (2) merge_units.simps) simp
  next
    case False
    then show ?thesis by (subst merge_units.simps, subst (2) merge_units.simps) simp
  qed
qed


lemma partition_facts:
  assumes "partition_base local_size part_id < n"
  shows "partition_base local_size part_id + partition_size local_size part_id n \<le> n"
    and "partition_size local_size part_id n \<le> 2 * local_size"
  using assms by (auto simp: partition_size_def)

lemma merge_block_partition:
  assumes shm: "length (shm part_id) = 2 * local_size"
    and inside: "partition_base local_size part_id < length results"
  shows "mset (take (partition_size local_size part_id (length results))
                (drop (partition_base local_size part_id)
                   (gpusort_bitonic_merge_block keycomp local_size shm part_id results)))
         = mset (take (min (partition_size local_size part_id (length results)) 2048)
                   (drop (partition_base local_size part_id) results))
           + mset (take (partition_size local_size part_id (length results) - 2048)
                     (drop 2048 (shm part_id)))"
proof -
  define pb where "pb = partition_base local_size part_id"
  define ps where "ps = partition_size local_size part_id (length results)"
  define L0 where "L0 = merge_load pb ps (shm part_id) results"
  define L1 where "L1 = merge_units keycomp local_size ps (2 * local_size) L0"
  have fit: "pb + ps \<le> length results" and small: "ps \<le> 2 * local_size"
    unfolding pb_def ps_def by (rule partition_facts [OF inside])+
  have lenA: "length (take (min ps 2048) (drop pb results)) = min ps 2048"
    using fit by simp
  have len0: "length L0 = 2 * local_size"
    unfolding L0_def merge_load_def using lenA small shm by simp
  have le0: "ps \<le> length L0" using len0 small by simp
  have keep: "mset (take ps L1) = mset (take ps L0)" and len1: "length L1 = length L0"
    unfolding L1_def using merge_units_within [OF le0] by simp_all
  have out: "gpusort_bitonic_merge_block keycomp local_size shm part_id results
             = take pb results @ take ps L1 @ drop (pb + ps) results"
    unfolding gpusort_bitonic_merge_block_def Let_def pb_def [symmetric] ps_def [symmetric]
      L0_def [symmetric] L1_def [symmetric] by (rule refl)
  have "length (take pb results) = pb" using fit by simp
  moreover have "length (take ps L1) = ps" using le0 len1 by simp
  ultimately have written: "take ps (drop pb (take pb results @ take ps L1 @ drop (pb + ps) results))
      = take ps L1"
    by simp
  have "take ps L0 = take (min ps 2048) (drop pb results) @ take (ps - 2048) (drop 2048 (shm part_id))"
  proof (cases "ps \<le> 2048")
    case True
    then show ?thesis
      unfolding L0_def merge_load_def using lenA by (simp add: min_absorb1)
  next
    case False
    then have m: "min ps 2048 = 2048" by simp
    show ?thesis
      unfolding L0_def merge_load_def using lenA m by simp
  qed
  then have "mset (take ps L0) = mset (take (min ps 2048) (drop pb results))
      + mset (take (ps - 2048) (drop 2048 (shm part_id)))"
    by simp
  then show ?thesis
    unfolding pb_def [symmetric] ps_def [symmetric] out written keep .
qed

text \<open>
  Claim C9.  Take a thread block of \<^verbatim>\<open>gpusort_bitonic_merge\<close> whose partition
  starts inside the array and whose shared array has \<open>2 * local_size\<close> entries.  If
  the partition size (twice the local size, cut at the end of the array) is at most
  2048, the entries written back are, as a multiset, the entries of the same
  partition before the kernel.  If it exceeds 2048, the entries written back are the
  first 2048 entries of the partition together with what the shared array held at the
  positions from 2048 up to the partition size, positions the load loop never wrote;
  and there is at least one such position.
\<close>

theorem merge_write_back_sources:
  assumes "length (shm part_id) = 2 * local_size"
    and "partition_base local_size part_id < length results"
  shows "(partition_size local_size part_id (length results) \<le> 2048 \<longrightarrow>
            mset (take (partition_size local_size part_id (length results))
                   (drop (partition_base local_size part_id)
                      (gpusort_bitonic_merge_block keycomp local_size shm part_id results)))
            = mset (take (partition_size local_size part_id (length results))
                      (drop (partition_base local_size part_id) results)))
       \<and> (2048 < partition_size local_size part_id (length results) \<longrightarrow>
            mset (take (partition_size local_size part_id (length results))
                   (drop (partition_base local_size part_id)
                      (gpusort_bitonic_merge_block keycomp local_size shm part_id results)))
            = mset (take 2048 (drop (partition_base local_size part_id) results))
              + mset (take (partition_size local_size part_id (length results) - 2048)
                        (drop 2048 (shm part_id)))
            \<and> take (partition_size local_size part_id (length results) - 2048)
                 (drop 2048 (shm part_id)) \<noteq> [])"
proof (intro conjI impI)
  assume "partition_size local_size part_id (length results) \<le> 2048"
  then show "mset (take (partition_size local_size part_id (length results))
                   (drop (partition_base local_size part_id)
                      (gpusort_bitonic_merge_block keycomp local_size shm part_id results)))
            = mset (take (partition_size local_size part_id (length results))
                      (drop (partition_base local_size part_id) results))"
    using merge_block_partition [where shm = shm and part_id = part_id and keycomp = keycomp, OF assms]
    by (simp add: min_absorb1)
next
  assume big: "2048 < partition_size local_size part_id (length results)"
  then show "mset (take (partition_size local_size part_id (length results))
                   (drop (partition_base local_size part_id)
                      (gpusort_bitonic_merge_block keycomp local_size shm part_id results)))
            = mset (take 2048 (drop (partition_base local_size part_id) results))
              + mset (take (partition_size local_size part_id (length results) - 2048)
                        (drop 2048 (shm part_id)))"
    using merge_block_partition [where shm = shm and part_id = part_id and keycomp = keycomp, OF assms]
    by (simp add: min_absorb2)
  have "partition_size local_size part_id (length results) \<le> 2 * local_size"
    by (rule partition_facts(2) [OF assms(2)])
  then show "take (partition_size local_size part_id (length results) - 2048)
                 (drop 2048 (shm part_id)) \<noteq> []"
    using big assms(1) by auto
qed

theorem merge_write_back_sources_witness:
  "length ((\<lambda>b. replicate 4 (0::nat)) 0) = 2 * 2
   \<and> partition_base 2 0 < length [3, 1, 2, 0 :: nat]
   \<and> partition_size 2 0 (length [3, 1, 2, 0 :: nat]) \<le> 2048
   \<and> mset (take (partition_size 2 0 (length [3, 1, 2, 0 :: nat]))
             (drop (partition_base 2 0)
                (gpusort_bitonic_merge_block nat_keycomp 2 (\<lambda>b. replicate 4 0) 0 [3, 1, 2, 0])))
       = mset (take (partition_size 2 0 (length [3, 1, 2, 0 :: nat]))
                 (drop (partition_base 2 0) [3, 1, 2, 0]))
   \<and> length ((\<lambda>b. replicate 4096 (9::nat)) 0) = 2 * 2048
   \<and> partition_base 2048 0 < length (replicate 4096 (0::nat))
   \<and> 2048 < partition_size 2048 0 (length (replicate 4096 (0::nat)))
   \<and> mset (take (partition_size 2048 0 (length (replicate 4096 (0::nat))))
             (drop (partition_base 2048 0)
                (gpusort_bitonic_merge_block nat_keycomp 2048 (\<lambda>b. replicate 4096 9) 0
                   (replicate 4096 0))))
       = mset (take 2048 (drop (partition_base 2048 0) (replicate 4096 (0::nat))))
         + mset (take (partition_size 2048 0 (length (replicate 4096 (0::nat))) - 2048)
                   (drop 2048 ((\<lambda>b. replicate 4096 (9::nat)) 0)))"
proof -
  have a1: "length ((\<lambda>b. replicate 4 (0::nat)) 0) = 2 * 2" by simp
  have a2: "partition_base 2 0 < length [3, 1, 2, 0 :: nat]"
    by (simp add: partition_base_def)
  have a3: "partition_size 2 0 (length [3, 1, 2, 0 :: nat]) \<le> 2048"
    by (simp add: partition_size_def partition_base_def)
  have b1: "length ((\<lambda>b. replicate 4096 (9::nat)) 0) = 2 * 2048" by simp
  have b2: "partition_base 2048 0 < length (replicate 4096 (0::nat))"
    by (simp add: partition_base_def)
  have b3: "2048 < partition_size 2048 0 (length (replicate 4096 (0::nat)))"
    by (simp add: partition_size_def partition_base_def)
  show ?thesis
    using a1 a2 a3 b1 b2 b3
      merge_write_back_sources [where shm = "\<lambda>b. replicate 4 (0::nat)" and part_id = 0
        and local_size = 2 and results = "[3, 1, 2, 0]" and keycomp = nat_keycomp]
      merge_write_back_sources [where shm = "\<lambda>b. replicate 4096 (9::nat)" and part_id = 0
        and local_size = 2048 and results = "replicate 4096 0" and keycomp = nat_keycomp]
    by blast
qed

end
